theory Spec2Isabelle
  imports Main "HOL-Library.Sublist"
begin

section \<open>Python values used by check\_mail\_loop.py\<close>

text \<open>
  A Python \<open>str\<close> is a sequence of Unicode code points and is modelled as a list of
  natural numbers; a Python \<open>bytes\<close> object is a sequence of bytes and is modelled as an
  Isabelle \<open>string\<close> (a \<open>char\<close> is exactly one byte). \<open>str\<close> turns an ASCII literal of
  the source into the code points of the Python literal.
\<close>

type_synonym str = "nat list"

type_synonym bytes = "string"

definition str :: "string \<Rightarrow> str" where
  "str cs = map of_char cs"

text \<open>The exceptions the modelled code can raise, or let through from the library.\<close>

datatype py_exn =
    IndexError
  | TypeError
  | ValueError
  | AttributeError
  | UnicodeDecodeError
  | IMAP4_error
  | OSError

subsection \<open>\<open>bytes.decode()\<close>: strict UTF-8\<close>

definition cont :: "nat \<Rightarrow> bool" where
  "cont b = (128 \<le> b \<and> b < 192)"

text \<open>
  The well-formed byte sequences of UTF-8 (no overlong forms, no surrogates, nothing above
  U+10FFFF); \<open>None\<close> is Python's \<open>UnicodeDecodeError\<close>.
\<close>

fun utf8 :: "nat list \<Rightarrow> nat list option" where
  "utf8 [] = Some []"
| "utf8 (b # bs) =
     (if b < 128 then map_option ((#) b) (utf8 bs)
      else if 194 \<le> b \<and> b < 224 then
        (case bs of
           c1 # r \<Rightarrow>
             if cont c1 then map_option ((#) ((b - 192) * 64 + (c1 - 128))) (utf8 r)
             else None
         | _ \<Rightarrow> None)
      else if 224 \<le> b \<and> b < 240 then
        (case bs of
           c1 # c2 # r \<Rightarrow>
             if cont c1 \<and> cont c2 \<and> (if b = 224 then 160 \<le> c1 else True)
                \<and> (if b = 237 then c1 < 160 else True)
             then map_option ((#) ((b - 224) * 4096 + (c1 - 128) * 64 + (c2 - 128))) (utf8 r)
             else None
         | _ \<Rightarrow> None)
      else if 240 \<le> b \<and> b < 245 then
        (case bs of
           c1 # c2 # c3 # r \<Rightarrow>
             if cont c1 \<and> cont c2 \<and> cont c3 \<and> (if b = 240 then 144 \<le> c1 else True)
                \<and> (if b = 244 then c1 < 144 else True)
             then map_option
                    ((#) ((b - 240) * 262144 + (c1 - 128) * 4096 + (c2 - 128) * 64 + (c3 - 128)))
                    (utf8 r)
             else None
         | _ \<Rightarrow> None)
      else None)"

definition decode :: "bytes \<Rightarrow> py_exn + str" where
  "decode b = (case utf8 (map of_char b) of None \<Rightarrow> Inl UnicodeDecodeError | Some s \<Rightarrow> Inr s)"

subsection \<open>String methods\<close>

text \<open>\<open>s.startswith(p)\<close>.\<close>

definition startswith :: "str \<Rightarrow> str \<Rightarrow> bool" where
  "startswith s p = prefix p s"

text \<open>
  \<open>s.split(sep)\<close> for a non-empty separator: the pieces between the non-overlapping
  occurrences of \<open>sep\<close>, found left to right; always at least one piece. (Python raises
  ValueError for an empty separator; both separators of the source are non-empty
  literals.)
\<close>

function split_from :: "'a list \<Rightarrow> 'a list \<Rightarrow> 'a list \<Rightarrow> 'a list list" where
  "split_from sep acc [] = [rev acc]"
| "split_from sep acc (c # cs) =
     (if sep \<noteq> [] \<and> prefix sep (c # cs)
      then rev acc # split_from sep [] (drop (length sep) (c # cs))
      else split_from sep (c # acc) cs)"
  by pat_completeness auto
termination
  by (relation "measure (\<lambda>(sep, acc, s). length s)") auto

definition py_split :: "'a list \<Rightarrow> 'a list \<Rightarrow> 'a list list" where
  "py_split sep s = split_from sep [] s"

text \<open>\<open>sep.join(xs)\<close>.\<close>

fun py_join :: "'a list \<Rightarrow> 'a list list \<Rightarrow> 'a list" where
  "py_join sep [] = []"
| "py_join sep [x] = x"
| "py_join sep (x # y # ys) = x @ sep @ py_join sep (y # ys)"

text \<open>\<open>xs[i]\<close> for an index \<open>i \<ge> 0\<close>: IndexError past the end.\<close>

definition subscript :: "'a list \<Rightarrow> nat \<Rightarrow> py_exn + 'a" where
  "subscript xs i = (if i < length xs then Inr (xs ! i) else Inl IndexError)"

text \<open>
  \<open>str.splitlines()\<close>: the line boundaries of a \<open>str\<close> are \<open>\n\<close>, \<open>\r\<close>, \<open>\r\n\<close>,
  \<open>\v\<close>, \<open>\f\<close>, \<open>\x1c\<close>, \<open>\x1d\<close>, \<open>\x1e\<close>, \<open>\x85\<close>, U+2028 and U+2029; the boundaries
  are dropped, and a final boundary opens no empty last line.
\<close>

definition linebreak :: "nat \<Rightarrow> bool" where
  "linebreak c = (c \<in> {10, 11, 12, 13, 28, 29, 30, 133, 8232, 8233})"

fun lines_from :: "str \<Rightarrow> str \<Rightarrow> str list" where
  "lines_from acc [] = (if acc = [] then [] else [rev acc])"
| "lines_from acc (c # cs) =
     (if linebreak c then
        rev acc #
          (case cs of
             d # ds \<Rightarrow> if c = 13 \<and> d = 10 then lines_from [] ds else lines_from [] cs
           | [] \<Rightarrow> lines_from [] cs)
      else lines_from (c # acc) cs)"

definition splitlines :: "str \<Rightarrow> str list" where
  "splitlines s = lines_from [] s"

text \<open>
  \<open>str.strip()\<close>: the characters for which \<open>str.isspace\<close> holds are removed at both
  ends.
\<close>

definition isspace :: "nat \<Rightarrow> bool" where
  "isspace c =
     ((9 \<le> c \<and> c \<le> 13) \<or> (28 \<le> c \<and> c \<le> 32) \<or> c = 133 \<or> c = 160 \<or> c = 5760
      \<or> (8192 \<le> c \<and> c \<le> 8202) \<or> c = 8232 \<or> c = 8233 \<or> c = 8239 \<or> c = 8287
      \<or> c = 12288)"

definition strip :: "str \<Rightarrow> str" where
  "strip s = rev (dropWhile isspace (rev (dropWhile isspace s)))"

text \<open>
  \<open>bytes.split()\<close> without a separator: the maximal runs of bytes that are not ASCII
  whitespace.
\<close>

definition bytes_isspace :: "char \<Rightarrow> bool" where
  "bytes_isspace c = (let n = (of_char c :: nat) in (9 \<le> n \<and> n \<le> 13) \<or> n = 32)"

fun words_from :: "bytes \<Rightarrow> bytes \<Rightarrow> bytes list" where
  "words_from acc [] = (if acc = [] then [] else [rev acc])"
| "words_from acc (c # cs) =
     (if bytes_isspace c then (if acc = [] then [] else [rev acc]) @ words_from [] cs
      else words_from (c # acc) cs)"

definition bytes_split :: "bytes \<Rightarrow> bytes list" where
  "bytes_split b = words_from [] b"

text \<open>
  \<open>int(b)\<close> for a \<open>bytes\<close> object, base 10: ASCII whitespace around an optional sign
  and decimal digits, single underscores allowed between digits; anything else is
  ValueError. (The interpreter's limit on the number of digits is not modelled.)
\<close>

definition digit :: "char \<Rightarrow> bool" where
  "digit c = (let n = (of_char c :: nat) in 48 \<le> n \<and> n \<le> 57)"

fun digits_value :: "int \<Rightarrow> bytes \<Rightarrow> int option" where
  "digits_value v [] = Some v"
| "digits_value v (c # cs) =
     (if digit c then digits_value (10 * v + (of_char c - 48)) cs
      else if c = CHR ''_'' then
        (case cs of d # _ \<Rightarrow> if digit d then digits_value v cs else None | [] \<Rightarrow> None)
      else None)"

definition py_int :: "bytes \<Rightarrow> py_exn + int" where
  "py_int b =
     (let t = rev (dropWhile bytes_isspace (rev (dropWhile bytes_isspace b)));
          neg = (case t of c # _ \<Rightarrow> c = CHR ''-'' | [] \<Rightarrow> False);
          u = (case t of c # cs \<Rightarrow> if c = CHR ''-'' \<or> c = CHR ''+'' then cs else t | [] \<Rightarrow> t)
      in case u of
           [] \<Rightarrow> Inl ValueError
         | c # _ \<Rightarrow>
             if digit c then
               (case digits_value 0 u of
                  None \<Rightarrow> Inl ValueError
                | Some v \<Rightarrow> Inr (if neg then - v else v))
             else Inl ValueError)"

section \<open>The IMAP session as the program sees it\<close>

text \<open>
  \<open>imaplib\<close> is not part of the repository: the session object is a parameter of the
  model. Every method takes the state of the outside world (connection and server) and
  returns the new one together with either the exception it raises or its response. A
  response is the pair \<open>(typ, data)\<close> of imaplib; an element of \<open>data\<close> is \<open>None\<close>, a
  \<open>bytes\<close> object, or a pair of \<open>bytes\<close> objects (a literal with its envelope).
\<close>

datatype item = NoneItem | BytesItem bytes | TupleItem bytes bytes

type_synonym response = "str \<times> item list"

record 's imaplib =
  IMAP4_SSL :: "str \<Rightarrow> int \<Rightarrow> bool \<Rightarrow> 's \<Rightarrow> (py_exn + unit) \<times> 's"
  login :: "str \<Rightarrow> str \<Rightarrow> 's \<Rightarrow> (py_exn + response) \<times> 's"
  select :: "str \<Rightarrow> 's \<Rightarrow> (py_exn + response) \<times> 's"
  search :: "'s \<Rightarrow> (py_exn + response) \<times> 's"
  fetch :: "str \<Rightarrow> 's \<Rightarrow> (py_exn + response) \<times> 's"
  store :: "bytes \<Rightarrow> 's \<Rightarrow> (py_exn + response) \<times> 's"
  expunge :: "'s \<Rightarrow> (py_exn + response) \<times> 's"
  close :: "'s \<Rightarrow> (py_exn + response) \<times> 's"
  logout :: "'s \<Rightarrow> (py_exn + response) \<times> 's"

text \<open>
  \<open>search\<close> stands for \<open>server.search(None, 'ALL')\<close>, \<open>fetch n\<close> for
  \<open>server.fetch(n, '(RFC822)')\<close> and \<open>store n\<close> for
  \<open>server.store(n, '+FLAGS', '\\Deleted')\<close>: the source calls them with these
  arguments only. \<open>IMAP4_SSL\<close> includes the construction of the SSL context.
\<close>

datatype MailFound = UNDEFINED | FOUND | FOUND_IN_SPAM | NOT_FOUND

text \<open>
  What a run does is recorded as the list of its calls, in order: the IMAP methods called
  (each recorded when it is called, whether or not it raises), \<open>time.sleep\<close>, and the
  status each call of \<open>imap_search_server\<close> returned to \<open>imap_retrieve_mail\<close>.
\<close>

datatype event =
    Connect
  | Login
  | Select str
  | Search
  | Fetch str
  | Store bytes
  | Expunge
  | Close
  | Logout
  | Sleep int
  | Scanned str MailFound

text \<open>
  A computation takes the state of the outside world and returns an exception or a value,
  the calls it made, and the new state. An exception ends the computation: Python
  propagates it, and the source has no handler anywhere.
\<close>

type_synonym ('a, 's) io = "'s \<Rightarrow> (py_exn + 'a) \<times> event list \<times> 's"

definition io_return :: "'a \<Rightarrow> ('a, 's) io" where
  "io_return x s = (Inr x, [], s)"

definition io_lift :: "py_exn + 'a \<Rightarrow> ('a, 's) io" where
  "io_lift r s = (r, [], s)"

definition io_call :: "event \<Rightarrow> ('s \<Rightarrow> (py_exn + 'a) \<times> 's) \<Rightarrow> ('a, 's) io" where
  "io_call ev m s = (case m s of (r, s') \<Rightarrow> (r, [ev], s'))"

definition io_bind :: "('a, 's) io \<Rightarrow> ('a \<Rightarrow> ('b, 's) io) \<Rightarrow> ('b, 's) io" where
  "io_bind m f s =
     (case m s of
        (Inl e, evs, s') \<Rightarrow> (Inl e, evs, s')
      | (Inr x, evs, s') \<Rightarrow> (case f x s' of (r, evs', s'') \<Rightarrow> (r, evs @ evs', s'')))"

text \<open>\<open>time.sleep(n)\<close>, and the note of a status returned by a scan.\<close>

definition sleep :: "int \<Rightarrow> (unit, 's) io" where
  "sleep n s = (Inr (), [Sleep n], s)"

definition scanned :: "str \<Rightarrow> MailFound \<Rightarrow> (unit, 's) io" where
  "scanned mailbox status s = (Inr (), [Scanned mailbox status], s)"

section \<open>check\_mail\_loop.py\<close>

text \<open>
  The calls of \<open>debug\<close> inside the two IMAP functions only print (when \<open>debug_flag\<close> is
  set) and are left out there; \<open>debug\<close> itself is modelled for the final status report.
\<close>

definition debug :: "bool \<Rightarrow> str \<Rightarrow> str list" where
  "debug debug_flag message = (if debug_flag then [message] else [])"

subsection \<open>\<open>imap_search_server\<close>\<close>

text \<open>
  The local class \<open>Email\<close> (lines 185 to 188); \<open>raw_data\<close> is the constructor's
  argument.
\<close>

record Email =
  data :: str
  header :: str

definition CRLFCRLF :: str where
  "CRLFCRLF = [13, 10, 13, 10]"

definition Email :: "bytes \<Rightarrow> py_exn + Email" where
  "Email raw_data =
     (case decode raw_data of
        Inl e \<Rightarrow> Inl e
      | Inr d \<Rightarrow> Inr \<lparr>data = d, header = py_join CRLFCRLF (take 1 (py_split CRLFCRLF d))\<rparr>)"

text \<open>
  \<open>int(num_msg_in_mbox[0])\<close> (line 195), \<open>data_mlist[0].split()\<close> (line 204) and
  \<open>data_mail[0][1]\<close> (line 212) on a response's data. An element that is \<open>None\<close> or of
  the wrong type raises as Python does. Indexing a \<open>bytes\<close> element at 1 gives an
  \<open>int\<close>, on which \<open>Email\<close> then fails at \<open>decode\<close> with AttributeError; that case is
  folded into \<open>first_literal\<close>.
\<close>

definition int_of_first :: "item list \<Rightarrow> py_exn + int" where
  "int_of_first d =
     (case subscript d 0 of
        Inl e \<Rightarrow> Inl e
      | Inr NoneItem \<Rightarrow> Inl TypeError
      | Inr (BytesItem b) \<Rightarrow> py_int b
      | Inr (TupleItem a b) \<Rightarrow> Inl TypeError)"

definition split_first :: "item list \<Rightarrow> py_exn + bytes list" where
  "split_first d =
     (case subscript d 0 of
        Inl e \<Rightarrow> Inl e
      | Inr NoneItem \<Rightarrow> Inl AttributeError
      | Inr (BytesItem b) \<Rightarrow> Inr (bytes_split b)
      | Inr (TupleItem a b) \<Rightarrow> Inl AttributeError)"

definition first_literal :: "item list \<Rightarrow> py_exn + bytes" where
  "first_literal d =
     (case subscript d 0 of
        Inl e \<Rightarrow> Inl e
      | Inr NoneItem \<Rightarrow> Inl TypeError
      | Inr (BytesItem b) \<Rightarrow> (if 1 < length b then Inl AttributeError else Inl IndexError)
      | Inr (TupleItem a b) \<Rightarrow> Inr b)"

definition X_Icinga_Test_Id :: str where
  "X_Icinga_Test_Id = str ''X-Icinga-Test-Id''"

definition X_Icinga_Test_Id_sep :: str where
  "X_Icinga_Test_Id_sep = str ''X-Icinga-Test-Id: ''"

definition INBOX :: str where
  "INBOX = str ''INBOX''"

definition OK :: str where
  "OK = str ''OK''"

text \<open>
  The loop over the header's lines (lines 213 to 217): each line that starts with the
  header's name overwrites \<open>token\<close>; \<open>[1]\<close> raises IndexError when the split has one
  piece.
\<close>

fun for_line :: "str list \<Rightarrow> str \<Rightarrow> py_exn + str" where
  "for_line [] token = Inr token"
| "for_line (line # lines) token =
     (if startswith line X_Icinga_Test_Id then
        (case subscript (py_split X_Icinga_Test_Id_sep line) 1 of
           Inl e \<Rightarrow> Inl e
         | Inr t \<Rightarrow> for_line lines (strip t))
      else for_line lines token)"

text \<open>
  One pass through the body of the loop over the message numbers (lines 206 to 231), from
  the loop's variables \<open>(token_found, token)\<close>: \<open>Break\<close> is the \<open>break\<close> of line 225,
  which leaves the loop before the cleanup step of lines 229 to 231.
\<close>

datatype 'a loop = Continue 'a | Break 'a

definition visit ::
  "'s imaplib \<Rightarrow> str \<Rightarrow> str \<Rightarrow> bool \<Rightarrow> bytes \<Rightarrow> MailFound \<times> str
     \<Rightarrow> ((MailFound \<times> str) loop, 's) io" where
  "visit server mailbox expected_token cleanup_flag num vars s =
     (case vars of (token_found, token) \<Rightarrow>
        io_bind (io_lift (decode num)) (\<lambda>num_str.
        io_bind
          (if token_found = NOT_FOUND then
             io_bind (io_call (Fetch num_str) (fetch server num_str)) (\<lambda>(typ, data_mail).
             io_bind (io_lift (first_literal data_mail)) (\<lambda>lit.
             io_bind (io_lift (Email lit)) (\<lambda>email.
             io_bind (io_lift (for_line (splitlines (header email)) token)) (\<lambda>token'.
             if token' = expected_token then
               io_return
                 (Break (if mailbox = INBOX then FOUND else FOUND_IN_SPAM, token'))
             else io_return (Continue (token_found, token'))))))
           else io_return (Continue (token_found, token)))
          (\<lambda>c. case c of
             Break vars' \<Rightarrow> io_return (Break vars')
           | Continue vars' \<Rightarrow>
               io_bind
                 (if cleanup_flag
                  then io_bind (io_call (Store num) (store server num)) (\<lambda>_. io_return ())
                  else io_return ())
                 (\<lambda>_. io_return (Continue vars'))))) s"

fun for_num ::
  "'s imaplib \<Rightarrow> str \<Rightarrow> str \<Rightarrow> bool \<Rightarrow> bytes list \<Rightarrow> MailFound \<times> str
     \<Rightarrow> (MailFound \<times> str, 's) io" where
  "for_num server mailbox expected_token cleanup_flag [] vars s = io_return vars s"
| "for_num server mailbox expected_token cleanup_flag (num # nums) vars s =
     io_bind (visit server mailbox expected_token cleanup_flag num vars) (\<lambda>c.
       case c of
         Break vars' \<Rightarrow> io_return vars'
       | Continue vars' \<Rightarrow> for_num server mailbox expected_token cleanup_flag nums vars') s"

definition imap_search_server ::
  "'s imaplib \<Rightarrow> str \<Rightarrow> str \<Rightarrow> bool \<Rightarrow> (MailFound, 's) io" where
  "imap_search_server server mailbox expected_token cleanup_flag s =
     io_bind (io_call (Select mailbox) (select server mailbox))
       (\<lambda>(select_status, num_msg_in_mbox).
     io_bind (io_lift (int_of_first num_msg_in_mbox)) (\<lambda>num_msg_in_mbox.
     io_bind (io_call Search (search server)) (\<lambda>(typ, data_mlist).
     if typ \<noteq> OK then io_return UNDEFINED
     else
       io_bind (io_lift (split_first data_mlist)) (\<lambda>nums.
       io_bind (for_num server mailbox expected_token cleanup_flag nums (NOT_FOUND, []))
         (\<lambda>(token_found, token).
       io_bind
         (if cleanup_flag
          then io_bind (io_call Expunge (expunge server)) (\<lambda>_. io_return ())
          else io_return ())
         (\<lambda>_.
       io_bind (io_call Close (close server)) (\<lambda>_.
       io_return token_found))))))) s"

subsection \<open>\<open>imap_retrieve_mail\<close>\<close>

text \<open>The list of mailboxes (lines 151 to 155); an empty name is false in Python.\<close>

definition mailboxes_of :: "str option \<Rightarrow> str list" where
  "mailboxes_of imap_spambox =
     (case imap_spambox of
        None \<Rightarrow> []
      | Some b \<Rightarrow> if b \<noteq> [] then [b] else []) @ [INBOX]"

text \<open>
  The two nested loops (lines 157 to 168). \<open>Return\<close> is the \<open>return status\<close> of line
  168, after the logout of line 167; \<open>Next\<close> carries \<open>status\<close> to the next iteration.
\<close>

datatype flow = Next MailFound | Return MailFound

fun for_mailbox ::
  "'s imaplib \<Rightarrow> str \<Rightarrow> bool \<Rightarrow> str list \<Rightarrow> MailFound \<Rightarrow> (flow, 's) io" where
  "for_mailbox server expected_token cleanup_flag [] status s = io_return (Next status) s"
| "for_mailbox server expected_token cleanup_flag (mailbox # rest) status s =
     io_bind (imap_search_server server mailbox expected_token cleanup_flag) (\<lambda>status'.
     io_bind (scanned mailbox status') (\<lambda>_.
     if status' \<noteq> NOT_FOUND then
       io_bind (io_call Logout (logout server)) (\<lambda>_. io_return (Return status'))
     else for_mailbox server expected_token cleanup_flag rest status')) s"

fun for_i ::
  "'s imaplib \<Rightarrow> int \<Rightarrow> str list \<Rightarrow> str \<Rightarrow> bool \<Rightarrow> int list \<Rightarrow> MailFound
     \<Rightarrow> (flow, 's) io" where
  "for_i server delay mailboxes expected_token cleanup_flag [] status s =
     io_return (Next status) s"
| "for_i server delay mailboxes expected_token cleanup_flag (i # rest) status s =
     (let curr_delay = delay * (i + 1) ^ 2 in
      io_bind (if curr_delay > 0 then sleep curr_delay else io_return ()) (\<lambda>_.
      io_bind (for_mailbox server expected_token cleanup_flag mailboxes status) (\<lambda>c.
        case c of
          Return status' \<Rightarrow> io_return (Return status')
        | Next status' \<Rightarrow>
            for_i server delay mailboxes expected_token cleanup_flag rest status'))) s"

text \<open>\<open>delay\<close> is the global of line 65, set once by \<open>main\<close>.\<close>

definition imap_retrieve_mail ::
  "'s imaplib \<Rightarrow> int \<Rightarrow> str \<Rightarrow> int \<Rightarrow> str \<Rightarrow> str \<Rightarrow> str option \<Rightarrow> str \<Rightarrow> bool \<Rightarrow> bool
     \<Rightarrow> (MailFound, 's) io" where
  "imap_retrieve_mail server delay imap_host imap_port imap_user imap_pass imap_spambox
       expected_token cleanup_flag imap_skip_cert_validation s =
     io_bind
       (io_call Connect (IMAP4_SSL server imap_host imap_port imap_skip_cert_validation))
       (\<lambda>_.
     io_bind (io_call Login (login server imap_user imap_pass)) (\<lambda>_.
     io_bind
       (for_i server delay (mailboxes_of imap_spambox) expected_token cleanup_flag
          [0, 1, 2] NOT_FOUND)
       (\<lambda>c. case c of
          Return status \<Rightarrow> io_return status
        | Next status \<Rightarrow>
            io_bind (io_call Logout (logout server)) (\<lambda>_. io_return status)))) s"

subsection \<open>The end of \<open>main\<close>\<close>

text \<open>
  Lines 299 to 310: the lines printed for the final status, in order, and the value
  \<open>main\<close> returns, which \<open>sys.exit\<close> makes the exit code.
\<close>

definition main_status :: "bool \<Rightarrow> MailFound \<Rightarrow> str list \<times> int" where
  "main_status debug_flag status =
     (if status = FOUND then ([str ''OK''], 0)
      else if status = FOUND_IN_SPAM then
        (debug debug_flag (str ''WARNING - Message found in Spam folder''), 1)
      else if status = NOT_FOUND then ([str ''ERROR - Message not found''], 2)
      else ([str ''UNDEFINED - Undefined state''], 3))"

text \<open>
  Line 290, \<open>str(uuid.uuid4())\<close>: the token of a run is the text of a UUID, 32 lower-case
  hexadecimal digits of its 128-bit integer in groups of 8, 4, 4, 4 and 12, joined by
  hyphens. The integer is random and is a parameter here.
\<close>

definition hex_digit :: "nat \<Rightarrow> nat" where
  "hex_digit d = (if d < 10 then 48 + d else 87 + d)"

fun hex_digits :: "nat \<Rightarrow> nat \<Rightarrow> str" where
  "hex_digits 0 n = []"
| "hex_digits (Suc k) n = hex_digits k (n div 16) @ [hex_digit (n mod 16)]"

definition hex32 :: "nat \<Rightarrow> str" where
  "hex32 n = hex_digits 32 n"

definition uuid_str :: "nat \<Rightarrow> str" where
  "uuid_str n =
     (let h = hex32 n
      in take 8 h @ [45] @ take 4 (drop 8 h) @ [45] @ take 4 (drop 12 h) @ [45]
         @ take 4 (drop 16 h) @ [45] @ drop 20 h)"

text \<open>
  Lines 290 to 310 and 314: \<open>main\<close> from the generation of the token on (the SMTP part
  is left out), and the exit code of the process. An exception that reaches the top
  level ends the interpreter with code 1.
\<close>

definition main_retrieve ::
  "'s imaplib \<Rightarrow> bool \<Rightarrow> int \<Rightarrow> str \<Rightarrow> int \<Rightarrow> str \<Rightarrow> str \<Rightarrow> str option \<Rightarrow> nat \<Rightarrow> bool
     \<Rightarrow> bool \<Rightarrow> (str list \<times> int, 's) io" where
  "main_retrieve server debug_flag delay imap_host imap_port imap_user imap_pass imap_spam
       uuid4 imap_cleanup imap_skip_cert_validation s =
     io_bind
       (imap_retrieve_mail server delay imap_host imap_port imap_user imap_pass imap_spam
          (uuid_str uuid4) imap_cleanup imap_skip_cert_validation)
       (\<lambda>status. io_return (main_status debug_flag status)) s"

definition exit_code :: "py_exn + str list \<times> int \<Rightarrow> int" where
  "exit_code r = (case r of Inl e \<Rightarrow> 1 | Inr (out, code) \<Rightarrow> code)"

section \<open>A small mail store behind the session\<close>

text \<open>
  An executable instance of the session, used to run the program on concrete mailboxes.
  A message is its number, its RFC822 text and its \<open>\Deleted\<close> flag. The responses follow
  imaplib: \<open>select\<close> of an unknown mailbox answers \<open>NO\<close> with the server's text and
  leaves no mailbox selected; the commands that need a selected mailbox raise
  \<open>IMAP4.error\<close> without one; \<open>fetch\<close> of an unknown number answers \<open>[None]\<close>;
  \<open>expunge\<close> and \<open>close\<close> remove the messages flagged \<open>\Deleted\<close>.
\<close>

type_synonym message = "bytes \<times> bytes \<times> bool"

record mailstore =
  folders :: "(str \<times> message list) list"
  selected :: "str option"

function show_nat :: "nat \<Rightarrow> bytes" where
  "show_nat n =
     (if n < 10 then [''0123456789'' ! n]
      else show_nat (n div 10) @ [''0123456789'' ! (n mod 10)])"
  by pat_completeness auto
termination
  by (relation "measure id") auto

definition current :: "mailstore \<Rightarrow> message list option" where
  "current s = (case selected s of None \<Rightarrow> None | Some mailbox \<Rightarrow> map_of (folders s) mailbox)"

definition change :: "(message list \<Rightarrow> message list) \<Rightarrow> mailstore \<Rightarrow> mailstore" where
  "change f s =
     (case selected s of
        None \<Rightarrow> s
      | Some mailbox \<Rightarrow>
          s\<lparr>folders :=
              map (\<lambda>(name, msgs). if name = mailbox then (name, f msgs) else (name, msgs))
                (folders s)\<rparr>)"

definition flagged :: "message \<Rightarrow> bool" where
  "flagged m = (case m of (n, text, deleted) \<Rightarrow> deleted)"

definition ms_select :: "str \<Rightarrow> mailstore \<Rightarrow> (py_exn + response) \<times> mailstore" where
  "ms_select mailbox s =
     (case map_of (folders s) mailbox of
        None \<Rightarrow>
          (Inr (str ''NO'', [BytesItem ''Mailbox does not exist'']), s\<lparr>selected := None\<rparr>)
      | Some msgs \<Rightarrow>
          (Inr (OK, [BytesItem (show_nat (length msgs))]), s\<lparr>selected := Some mailbox\<rparr>))"

definition ms_search :: "mailstore \<Rightarrow> (py_exn + response) \<times> mailstore" where
  "ms_search s =
     (case current s of
        None \<Rightarrow> (Inl IMAP4_error, s)
      | Some msgs \<Rightarrow> (Inr (OK, [BytesItem (py_join '' '' (map fst msgs))]), s))"

definition ms_fetch :: "str \<Rightarrow> mailstore \<Rightarrow> (py_exn + response) \<times> mailstore" where
  "ms_fetch num_str s =
     (case current s of
        None \<Rightarrow> (Inl IMAP4_error, s)
      | Some msgs \<Rightarrow>
          (case find (\<lambda>m. decode (fst m) = Inr num_str) msgs of
             None \<Rightarrow> (Inr (OK, [NoneItem]), s)
           | Some (n, text, deleted) \<Rightarrow>
               (Inr (OK, [TupleItem (n @ '' (RFC822'') text, BytesItem '')'']), s)))"

definition ms_store :: "bytes \<Rightarrow> mailstore \<Rightarrow> (py_exn + response) \<times> mailstore" where
  "ms_store num s =
     (case current s of
        None \<Rightarrow> (Inl IMAP4_error, s)
      | Some msgs \<Rightarrow>
          (Inr (OK, [NoneItem]),
           change (map (\<lambda>(n, text, deleted). (n, text, deleted \<or> n = num))) s))"

definition ms_expunge :: "mailstore \<Rightarrow> (py_exn + response) \<times> mailstore" where
  "ms_expunge s =
     (case current s of
        None \<Rightarrow> (Inl IMAP4_error, s)
      | Some msgs \<Rightarrow> (Inr (OK, [NoneItem]), change (filter (\<lambda>m. \<not> flagged m)) s))"

definition ms_close :: "mailstore \<Rightarrow> (py_exn + response) \<times> mailstore" where
  "ms_close s =
     (case current s of
        None \<Rightarrow> (Inl IMAP4_error, s)
      | Some msgs \<Rightarrow>
          (Inr (OK, [BytesItem ''Closed'']),
           (change (filter (\<lambda>m. \<not> flagged m)) s)\<lparr>selected := None\<rparr>))"

definition mail_server :: "mailstore imaplib" where
  "mail_server =
     \<lparr>IMAP4_SSL = (\<lambda>host port skip s. (Inr (), s)),
      login = (\<lambda>user pass s. (Inr (OK, [BytesItem ''Logged in'']), s)),
      select = ms_select,
      search = ms_search,
      fetch = ms_fetch,
      store = ms_store,
      expunge = ms_expunge,
      close = ms_close,
      logout = (\<lambda>s. (Inr (str ''BYE'', [BytesItem ''Logging out'']), s\<lparr>selected := None\<rparr>))\<rparr>"

text \<open>The same server when its \<open>SEARCH\<close> command answers \<open>NO\<close>.\<close>

definition search_refused :: "mailstore imaplib" where
  "search_refused =
     mail_server\<lparr>search := (\<lambda>s. (Inr (str ''NO'', [BytesItem ''Search failed'']), s))\<rparr>"

text \<open>Messages and mail stores for the examples.\<close>

definition CRLF :: bytes where
  "CRLF = [CHR 0x0D, CHR 0x0A]"

definition mail :: "bytes \<Rightarrow> bytes \<Rightarrow> bytes" where
  "mail header_line body =
     ''Subject: Mail test'' @ CRLF @ header_line @ CRLF @ CRLF @ body @ CRLF"

definition store_of :: "(str \<times> message list) list \<Rightarrow> mailstore" where
  "store_of fs = \<lparr>folders = fs, selected = None\<rparr>"

text \<open>
  \<open>probe_mail\<close> is the message of the run whose token is \<open>probe_token\<close>; \<open>old_mail\<close> is
  the message of an earlier run; \<open>plain_mail\<close> has no custom header; \<open>spaced_mail\<close> has
  blanks around the token; \<open>bad_mail\<close> has no blank after the colon of the custom header;
  the value of the custom header of \<open>twice_mail\<close> goes on after the token with the
  header's name, a colon and a blank; \<open>copy_mail\<close> has no custom header, but a header
  \<open>X-Icinga-Test-Id-Copy\<close> whose value quotes the custom header of the probe.
\<close>

definition probe_token :: str where
  "probe_token = str ''5f0c1d9e-7a3b-4c2d-9e8f-1a2b3c4d5e6f''"

definition probe_mail :: bytes where
  "probe_mail =
     mail ''X-Icinga-Test-Id: 5f0c1d9e-7a3b-4c2d-9e8f-1a2b3c4d5e6f'' ''Dear Mail Server''"

definition old_mail :: bytes where
  "old_mail =
     mail ''X-Icinga-Test-Id: 11111111-2222-4333-8444-555555555555'' ''Dear Mail Server''"

definition plain_mail :: bytes where
  "plain_mail = mail ''X-Mailer: other'' ''Hello''"

definition spaced_mail :: bytes where
  "spaced_mail =
     mail ''X-Icinga-Test-Id:   5f0c1d9e-7a3b-4c2d-9e8f-1a2b3c4d5e6f  '' ''Dear Mail Server''"

definition bad_mail :: bytes where
  "bad_mail =
     mail ''X-Icinga-Test-Id:5f0c1d9e-7a3b-4c2d-9e8f-1a2b3c4d5e6f'' ''Dear Mail Server''"

definition twice_mail :: bytes where
  "twice_mail =
     mail ''X-Icinga-Test-Id: 5f0c1d9e-7a3b-4c2d-9e8f-1a2b3c4d5e6f X-Icinga-Test-Id: other''
       ''Dear Mail Server''"

definition copy_mail :: bytes where
  "copy_mail =
     mail ''X-Icinga-Test-Id-Copy: X-Icinga-Test-Id: 5f0c1d9e-7a3b-4c2d-9e8f-1a2b3c4d5e6f''
       ''Dear Mail Server''"

definition Junk :: str where
  "Junk = str ''Junk''"

definition the_host :: str where
  "the_host = str ''mail.example.org''"

definition the_user :: str where
  "the_user = str ''probe''"

definition the_pass :: str where
  "the_pass = str ''secret''"

section \<open>The header fields of the specification\<close>

text \<open>
  The specification speaks of the custom header of a message and of that header's value.
  These two functions are not part of the program: they read a header line the way the
  specification's words do, as a field of the message format, whose name is the text before
  the first colon (code point 58) and whose value is the text after it. The program itself
  never splits a line at the colon; \<open>for_line\<close> is its parse.
\<close>

definition spec_field_name :: "str \<Rightarrow> str" where
  "spec_field_name line = takeWhile (\<lambda>c. c \<noteq> 58) line"

definition spec_field_value :: "str \<Rightarrow> str" where
  "spec_field_value line = drop 1 (dropWhile (\<lambda>c. c \<noteq> 58) line)"

section \<open>Reading the list of calls\<close>

text \<open>
  \<open>schedule\<close> keeps the waits and the statuses of the scans, \<open>scans\<close> the mailbox and
  status of each scan, \<open>selections\<close> the mailboxes selected, in the order of the calls.
\<close>

definition schedule_event :: "event \<Rightarrow> bool" where
  "schedule_event e = (case e of Sleep n \<Rightarrow> True | Scanned m st \<Rightarrow> True | _ \<Rightarrow> False)"

definition schedule :: "event list \<Rightarrow> event list" where
  "schedule evs = filter schedule_event evs"

definition scans :: "event list \<Rightarrow> (str \<times> MailFound) list" where
  "scans evs = concat (map (\<lambda>e. case e of Scanned m st \<Rightarrow> [(m, st)] | _ \<Rightarrow> []) evs)"

definition selections :: "event list \<Rightarrow> str list" where
  "selections evs = concat (map (\<lambda>e. case e of Select m \<Rightarrow> [m] | _ \<Rightarrow> []) evs)"

text \<open>The calls a scan makes after selecting the mailbox.\<close>

definition scan_event :: "event \<Rightarrow> bool" where
  "scan_event e =
     (case e of Search \<Rightarrow> True | Fetch n \<Rightarrow> True | Store n \<Rightarrow> True | Expunge \<Rightarrow> True
      | Close \<Rightarrow> True | _ \<Rightarrow> False)"

text \<open>Every call of a computation satisfies \<open>P\<close>, from whatever state it starts.\<close>

definition emits :: "(event \<Rightarrow> bool) \<Rightarrow> ('a, 's) io \<Rightarrow> bool" where
  "emits P m = (\<forall>s. list_all P (fst (snd (m s))))"

text \<open>
  The wait of round \<open>i\<close> (lines 159 to 162), and the schedule of a round in which every
  scan returns \<open>NOT_FOUND\<close>.
\<close>

definition wait :: "int \<Rightarrow> int \<Rightarrow> event list" where
  "wait delay i = (if delay * (i + 1) ^ 2 > 0 then [Sleep (delay * (i + 1) ^ 2)] else [])"

definition round_plan :: "int \<Rightarrow> str list \<Rightarrow> int \<Rightarrow> event list" where
  "round_plan delay mailboxes i = wait delay i @ map (\<lambda>m. Scanned m NOT_FOUND) mailboxes"

section \<open>Computations and their calls\<close>

lemma io_bind_cases:
  assumes "io_bind m f s = (r, evs, s'')"
  obtains (raised) e where "m s = (Inl e, evs, s'')" and "r = Inl e"
  | (passed) x evs1 s' evs2 where "m s = (Inr x, evs1, s')" and "f x s' = (r, evs2, s'')"
      and "evs = evs1 @ evs2"
  using assms by (auto simp: io_bind_def split: prod.splits sum.splits)

lemma emitsI: "(\<And>s r evs s'. m s = (r, evs, s') \<Longrightarrow> list_all P evs) \<Longrightarrow> emits P m"
  unfolding emits_def by (metis prod.collapse)

lemma emitsD: "emits P m \<Longrightarrow> m s = (r, evs, s') \<Longrightarrow> list_all P evs"
  unfolding emits_def by (metis fst_conv snd_conv)

lemma emits_return: "emits P (io_return x)"
  by (simp add: emits_def io_return_def)

lemma emits_lift: "emits P (io_lift r)"
  by (simp add: emits_def io_lift_def)

lemma emits_call: "P ev \<Longrightarrow> emits P (io_call ev m)"
  by (simp add: emits_def io_call_def split: prod.splits)

lemma emits_bind: "emits P m \<Longrightarrow> (\<And>x. emits P (f x)) \<Longrightarrow> emits P (io_bind m f)"
  by (rule emitsI, erule io_bind_cases) (auto dest: emitsD)

lemma emits_visit:
  assumes "\<And>n. P (Fetch n)" and "cleanup_flag \<Longrightarrow> P (Store num)"
  shows "emits P (visit server mailbox expected_token cleanup_flag num vars)"
proof -
  have "emits P (\<lambda>s. visit server mailbox expected_token cleanup_flag num vars s)"
    unfolding visit_def using assms
    by (cases vars)
       (auto intro!: emits_bind emits_lift emits_return emits_call split: loop.splits)
  then show ?thesis by simp
qed


lemma for_num_Cons:
  "for_num server mailbox expected_token cleanup_flag (num # nums) vars =
     io_bind (visit server mailbox expected_token cleanup_flag num vars) (\<lambda>c.
       case c of
         Break vars' \<Rightarrow> io_return vars'
       | Continue vars' \<Rightarrow> for_num server mailbox expected_token cleanup_flag nums vars')"
  by (rule ext) simp

lemma for_num_Nil:
  "for_num server mailbox expected_token cleanup_flag [] vars = io_return vars"
  by (rule ext) simp

lemma emits_for_num:
  assumes "\<And>n. P (Fetch n)" and "\<And>n. cleanup_flag \<Longrightarrow> P (Store n)"
  shows "emits P (for_num server mailbox expected_token cleanup_flag nums vars)"
proof (induction nums arbitrary: vars)
  case Nil
  show ?case unfolding for_num_Nil by (rule emits_return)
next
  case (Cons num nums)
  show ?case unfolding for_num_Cons
    by (auto intro!: emits_bind emits_visit emits_return assms Cons split: loop.splits)
qed

lemma io_bind_call_trace:
  assumes "io_bind (io_call ev m) f s = (r, evs, s')" and "\<And>x. emits P (f x)"
  shows "\<exists>rest. evs = ev # rest \<and> list_all P rest"
  using assms(1)
proof (cases rule: io_bind_cases)
  case (raised e)
  then show ?thesis by (auto simp: io_call_def split: prod.splits)
next
  case (passed x evs1 s1 evs2)
  from passed(1) have "evs1 = [ev]" by (auto simp: io_call_def split: prod.splits)
  moreover from assms(2) passed(2) have "list_all P evs2" by (rule emitsD)
  ultimately show ?thesis using passed(3) by simp
qed

lemma scan_trace:
  assumes "imap_search_server server mailbox expected_token cleanup_flag s = (r, evs, s')"
  shows "\<exists>rest. evs = Select mailbox # rest \<and> list_all scan_event rest"
  using assms unfolding imap_search_server_def
  by (elim io_bind_call_trace)
     (auto intro!: emits_bind emits_lift emits_return emits_call emits_for_num
           simp: scan_event_def split: prod.splits)

lemma schedule_scan_events: "list_all scan_event evs \<Longrightarrow> schedule evs = []"
  by (induction evs) (auto simp: schedule_def scan_event_def schedule_event_def split: event.splits)

lemma selections_scan_events: "list_all scan_event evs \<Longrightarrow> selections evs = []"
  by (induction evs) (auto simp: selections_def scan_event_def split: event.splits)

lemma Logout_scan_events: "list_all scan_event evs \<Longrightarrow> Logout \<notin> set evs"
  by (induction evs) (auto simp: scan_event_def)

lemma schedule_append: "schedule (xs @ ys) = schedule xs @ schedule ys"
  by (simp add: schedule_def)

lemma selections_append: "selections (xs @ ys) = selections xs @ selections ys"
  by (simp add: selections_def)

lemma for_mailbox_cases:
  assumes "for_mailbox server expected_token cleanup_flag (mailbox # rest) status s = (r, evs, s')"
  obtains (scan_raised) e where
      "imap_search_server server mailbox expected_token cleanup_flag s = (Inl e, evs, s')"
      and "r = Inl e"
  | (left) st evs1 s1 r2 where
      "imap_search_server server mailbox expected_token cleanup_flag s = (Inr st, evs1, s1)"
      and "st \<noteq> NOT_FOUND" and "logout server s1 = (r2, s')"
      and "evs = evs1 @ [Scanned mailbox st, Logout]"
      and "r = (case r2 of Inl e \<Rightarrow> Inl e | Inr x \<Rightarrow> Inr (Return st))"
  | (went_on) evs1 s1 evs2 where
      "imap_search_server server mailbox expected_token cleanup_flag s = (Inr NOT_FOUND, evs1, s1)"
      and "for_mailbox server expected_token cleanup_flag rest NOT_FOUND s1 = (r, evs2, s')"
      and "evs = evs1 @ Scanned mailbox NOT_FOUND # evs2"
proof -
  from assms have
    "io_bind (imap_search_server server mailbox expected_token cleanup_flag) (\<lambda>status'.
     io_bind (scanned mailbox status') (\<lambda>_.
     if status' \<noteq> NOT_FOUND then
       io_bind (io_call Logout (logout server)) (\<lambda>_. io_return (Return status'))
     else for_mailbox server expected_token cleanup_flag rest status')) s = (r, evs, s')"
    by simp
  then show thesis
  proof (cases rule: io_bind_cases)
    case (raised e)
    then show ?thesis by (rule scan_raised)
  next
    case (passed st evs1 s1 evs2)
    show ?thesis
    proof (cases "st = NOT_FOUND")
      case True
      with passed(2) obtain evs3 where
        "for_mailbox server expected_token cleanup_flag rest NOT_FOUND s1 = (r, evs3, s')"
        and "evs2 = Scanned mailbox NOT_FOUND # evs3"
        by (auto simp: io_bind_def scanned_def split: prod.splits)
      with passed(1,3) True show ?thesis by (auto intro: went_on)
    next
      case False
      with passed(2) obtain r2 where "logout server s1 = (r2, s')"
        and "evs2 = [Scanned mailbox st, Logout]"
        and "r = (case r2 of Inl e \<Rightarrow> Inl e | Inr x \<Rightarrow> Inr (Return st))"
        by (auto simp: io_bind_def scanned_def io_call_def io_return_def
                 split: prod.splits sum.splits)
      with passed(1,3) False show ?thesis by (auto intro: left)
    qed
  qed
qed


lemma scans_scan_events: "list_all scan_event evs \<Longrightarrow> scans evs = []"
  by (induction evs) (auto simp: scans_def scan_event_def split: event.splits)

lemma scans_schedule: "scans (schedule evs) = scans evs"
  by (induction evs) (auto simp: scans_def schedule_def schedule_event_def split: event.splits)

lemma scans_append: "scans (xs @ ys) = scans xs @ scans ys"
  by (simp add: scans_def)

lemma scans_wait: "scans (wait delay i) = []"
  by (simp add: scans_def wait_def)

lemma selections_wait: "selections (wait delay i) = []"
  by (simp add: selections_def wait_def)

lemma Logout_wait: "Logout \<notin> set (wait delay i)"
  by (simp add: wait_def)

lemma schedule_wait: "schedule (wait delay i) = wait delay i"
  by (simp add: schedule_def wait_def schedule_event_def)

lemma scan_facts:
  assumes "imap_search_server server mailbox expected_token cleanup_flag s = (r, evs, s')"
  shows "schedule evs = []" and "scans evs = []" and "selections evs = [mailbox]"
    and "Logout \<notin> set evs"
proof -
  from scan_trace [OF assms] obtain rest where
    evs: "evs = Select mailbox # rest" and rest: "list_all scan_event rest"
    by blast
  show "schedule evs = []"
    using schedule_scan_events [OF rest] by (simp add: evs schedule_def schedule_event_def)
  show "scans evs = []"
    using scans_scan_events [OF rest] by (simp add: evs scans_def)
  show "selections evs = [mailbox]"
    using selections_scan_events [OF rest] by (simp add: evs selections_def)
  show "Logout \<notin> set evs"
    using Logout_scan_events [OF rest] by (simp add: evs)
qed

lemma for_mailbox_Next:
  assumes "for_mailbox server expected_token cleanup_flag mailboxes NOT_FOUND s
             = (Inr (Next st), evs, s')"
  shows "st = NOT_FOUND \<and> schedule evs = map (\<lambda>m. Scanned m NOT_FOUND) mailboxes
           \<and> Logout \<notin> set evs"
  using assms
proof (induction mailboxes arbitrary: s evs)
  case Nil
  then show ?case by (simp add: io_return_def schedule_def)
next
  case (Cons mailbox rest)
  from Cons.prems show ?case
  proof (cases rule: for_mailbox_cases)
    case (scan_raised e)
    then show ?thesis by simp
  next
    case (left st' evs1 s1 r2)
    then show ?thesis by (simp split: sum.splits)
  next
    case (went_on evs1 s1 evs2)
    from Cons.IH [OF went_on(2)] scan_facts [OF went_on(1)] went_on(3)
    show ?thesis by (simp add: schedule_def schedule_event_def)
  qed
qed

lemma for_mailbox_Return:
  assumes "for_mailbox server expected_token cleanup_flag mailboxes NOT_FOUND s
             = (Inr (Return st), evs, s')"
  shows "st \<noteq> NOT_FOUND \<and>
         (\<exists>pre m evs0. prefix (pre @ [m]) mailboxes
            \<and> scans evs = map (\<lambda>b. (b, NOT_FOUND)) pre @ [(m, st)]
            \<and> evs = evs0 @ [Scanned m st, Logout] \<and> Logout \<notin> set evs0)"
  using assms
proof (induction mailboxes arbitrary: s evs)
  case Nil
  then show ?case by (simp add: io_return_def)
next
  case (Cons mailbox rest)
  from Cons.prems show ?case
  proof (cases rule: for_mailbox_cases)
    case (scan_raised e)
    then show ?thesis by simp
  next
    case (left st' evs1 s1 r2)
    from left(5) have st: "st' = st" by (simp split: sum.splits)
    have "prefix ([] @ [mailbox]) (mailbox # rest)" by simp
    moreover have "scans evs = map (\<lambda>b. (b, NOT_FOUND)) [] @ [(mailbox, st)]"
      using scan_facts(2) [OF left(1)] left(4) st by (simp add: scans_append) (simp add: scans_def)
    moreover have "evs = evs1 @ [Scanned mailbox st, Logout]" using left(4) st by simp
    moreover have "Logout \<notin> set evs1" using scan_facts(4) [OF left(1)] .
    ultimately show ?thesis using left(2) st by blast
  next
    case (went_on evs1 s1 evs2)
    from Cons.IH [OF went_on(2)] obtain pre m evs0 where
      st: "st \<noteq> NOT_FOUND" and p: "prefix (pre @ [m]) rest"
      and sc: "scans evs2 = map (\<lambda>b. (b, NOT_FOUND)) pre @ [(m, st)]"
      and e: "evs2 = evs0 @ [Scanned m st, Logout]" and l: "Logout \<notin> set evs0"
      by blast
    have "prefix ((mailbox # pre) @ [m]) (mailbox # rest)" using p by simp
    moreover have "scans evs = map (\<lambda>b. (b, NOT_FOUND)) (mailbox # pre) @ [(m, st)]"
      using scan_facts(2) [OF went_on(1)] went_on(3) sc
      by (simp add: scans_append) (simp add: scans_def)
    moreover have "evs = (evs1 @ Scanned mailbox NOT_FOUND # evs0) @ [Scanned m st, Logout]"
      using went_on(3) e by simp
    moreover have "Logout \<notin> set (evs1 @ Scanned mailbox NOT_FOUND # evs0)"
      using scan_facts(4) [OF went_on(1)] l by simp
    ultimately show ?thesis using st by blast
  qed
qed

lemma selections_Cons:
  "selections (e # evs) = (case e of Select m \<Rightarrow> [m] | _ \<Rightarrow> []) @ selections evs"
  by (simp add: selections_def)

lemma selections_Nil: "selections [] = []"
  by (simp add: selections_def)

lemma for_mailbox_selections:
  assumes "for_mailbox server expected_token cleanup_flag mailboxes status s = (r, evs, s')"
  shows "prefix (selections evs) mailboxes
         \<and> (\<forall>st. r = Inr (Next st) \<longrightarrow> selections evs = mailboxes)"
  using assms
proof (induction mailboxes arbitrary: status s evs)
  case Nil
  then show ?case by (auto simp: io_return_def selections_Nil)
next
  case (Cons mailbox rest)
  from Cons.prems show ?case
  proof (cases rule: for_mailbox_cases)
    case (scan_raised e)
    with scan_facts(3) [OF scan_raised(1)] show ?thesis by simp
  next
    case (left st' evs1 s1 r2)
    with scan_facts(3) [OF left(1)] show ?thesis
      by (simp add: selections_append selections_Cons selections_Nil split: sum.splits)
  next
    case (went_on evs1 s1 evs2)
    from Cons.IH [OF went_on(2)] scan_facts(3) [OF went_on(1)] went_on(3)
    show ?thesis
      by (simp add: selections_append selections_Cons)
  qed
qed

lemma for_i_cases:
  assumes "for_i server delay mailboxes expected_token cleanup_flag (i # rest) status s
             = (r, evs, s')"
  obtains (raised) e evs1 where
      "for_mailbox server expected_token cleanup_flag mailboxes status s = (Inl e, evs1, s')"
      and "r = Inl e" and "evs = wait delay i @ evs1"
  | (returned) st evs1 where
      "for_mailbox server expected_token cleanup_flag mailboxes status s
         = (Inr (Return st), evs1, s')"
      and "r = Inr (Return st)" and "evs = wait delay i @ evs1"
  | (next_round) st evs1 s1 evs2 where
      "for_mailbox server expected_token cleanup_flag mailboxes status s
         = (Inr (Next st), evs1, s1)"
      and "for_i server delay mailboxes expected_token cleanup_flag rest st s1 = (r, evs2, s')"
      and "evs = wait delay i @ evs1 @ evs2"
proof -
  obtain r1 evs1 s1 where
    fm: "for_mailbox server expected_token cleanup_flag mailboxes status s = (r1, evs1, s1)"
    by (metis prod.collapse)
  show thesis
  proof (cases r1)
    case (Inl e)
    with assms fm have "r = Inl e" and "evs = wait delay i @ evs1" and "s' = s1"
      by (auto simp: Let_def io_bind_def sleep_def io_return_def wait_def split: if_splits)
    with fm Inl show ?thesis by (auto intro: raised)
  next
    case (Inr c)
    show ?thesis
    proof (cases c)
      case (Return st)
      with assms fm Inr have "r = Inr (Return st)" and "evs = wait delay i @ evs1" and "s' = s1"
        by (auto simp: Let_def io_bind_def sleep_def io_return_def wait_def split: if_splits)
      with fm Inr Return show ?thesis by (auto intro: returned)
    next
      case (Next st)
      obtain evs2 where
        "for_i server delay mailboxes expected_token cleanup_flag rest st s1 = (r, evs2, s')"
        and "evs = wait delay i @ evs1 @ evs2"
        using assms fm Inr Next
        by (auto simp: Let_def io_bind_def sleep_def io_return_def wait_def
                 split: if_splits prod.splits)
      with fm Inr Next show ?thesis by (auto intro: next_round)
    qed
  qed
qed

lemma for_i_Next:
  assumes "for_i server delay mailboxes expected_token cleanup_flag rounds NOT_FOUND s
             = (Inr (Next st), evs, s')"
  shows "st = NOT_FOUND \<and> schedule evs = concat (map (round_plan delay mailboxes) rounds)
           \<and> Logout \<notin> set evs"
  using assms
proof (induction rounds arbitrary: s evs)
  case Nil
  then show ?case by (simp add: io_return_def schedule_def)
next
  case (Cons i rest)
  from Cons.prems show ?case
  proof (cases rule: for_i_cases)
    case (raised e evs1)
    then show ?thesis by simp
  next
    case (returned st' evs1)
    then show ?thesis by simp
  next
    case (next_round st' evs1 s1 evs2)
    from for_mailbox_Next [OF next_round(1)] have
      st': "st' = NOT_FOUND" and sch: "schedule evs1 = map (\<lambda>m. Scanned m NOT_FOUND) mailboxes"
      and l: "Logout \<notin> set evs1"
      by simp_all
    from Cons.IH [OF next_round(2) [unfolded st']] next_round(3) sch l
    show ?thesis
      by (simp add: schedule_append schedule_wait round_plan_def Logout_wait)
  qed
qed

lemma for_i_Return:
  assumes "for_i server delay mailboxes expected_token cleanup_flag rounds NOT_FOUND s
             = (Inr (Return st), evs, s')"
  shows "st \<noteq> NOT_FOUND \<and>
         (\<exists>pre m evs0. prefix (pre @ [m]) (concat (map (\<lambda>i. mailboxes) rounds))
            \<and> scans evs = map (\<lambda>b. (b, NOT_FOUND)) pre @ [(m, st)]
            \<and> evs = evs0 @ [Scanned m st, Logout] \<and> Logout \<notin> set evs0)"
  using assms
proof (induction rounds arbitrary: s evs)
  case Nil
  then show ?case by (simp add: io_return_def)
next
  case (Cons i rest)
  from Cons.prems show ?case
  proof (cases rule: for_i_cases)
    case (raised e evs1)
    then show ?thesis by simp
  next
    case (returned st' evs1)
    then have fm: "for_mailbox server expected_token cleanup_flag mailboxes NOT_FOUND s
        = (Inr (Return st), evs1, s')" by simp
    from for_mailbox_Return [OF fm] obtain pre m evs0 where
      st: "st \<noteq> NOT_FOUND" and p: "prefix (pre @ [m]) mailboxes"
      and sc: "scans evs1 = map (\<lambda>b. (b, NOT_FOUND)) pre @ [(m, st)]"
      and e: "evs1 = evs0 @ [Scanned m st, Logout]" and l: "Logout \<notin> set evs0"
      by blast
    have "prefix (pre @ [m]) (concat (map (\<lambda>i. mailboxes) (i # rest)))"
      using p by (simp add: prefix_prefix)
    moreover have "scans evs = map (\<lambda>b. (b, NOT_FOUND)) pre @ [(m, st)]"
      using returned(3) sc by (simp add: scans_append scans_wait)
    moreover have "evs = (wait delay i @ evs0) @ [Scanned m st, Logout]"
      using returned(3) e by simp
    moreover have "Logout \<notin> set (wait delay i @ evs0)" using l by (simp add: Logout_wait)
    ultimately show ?thesis using st by blast
  next
    case (next_round st' evs1 s1 evs2)
    from for_mailbox_Next [OF next_round(1)] have
      st': "st' = NOT_FOUND" and sch: "schedule evs1 = map (\<lambda>m. Scanned m NOT_FOUND) mailboxes"
      and l1: "Logout \<notin> set evs1"
      by simp_all
    from Cons.IH [OF next_round(2) [unfolded st']] obtain pre m evs0 where
      st: "st \<noteq> NOT_FOUND" and p: "prefix (pre @ [m]) (concat (map (\<lambda>i. mailboxes) rest))"
      and sc: "scans evs2 = map (\<lambda>b. (b, NOT_FOUND)) pre @ [(m, st)]"
      and e: "evs2 = evs0 @ [Scanned m st, Logout]" and l: "Logout \<notin> set evs0"
      by blast
    have sc1: "scans evs1 = map (\<lambda>b. (b, NOT_FOUND)) mailboxes"
      using scans_schedule [of evs1] sch by (simp add: scans_def comp_def)
    have "prefix ((mailboxes @ pre) @ [m]) (concat (map (\<lambda>i. mailboxes) (i # rest)))"
      using p by simp
    moreover have "scans evs = map (\<lambda>b. (b, NOT_FOUND)) (mailboxes @ pre) @ [(m, st)]"
      using next_round(3) sc sc1 by (simp add: scans_append scans_wait)
    moreover have "evs = (wait delay i @ evs1 @ evs0) @ [Scanned m st, Logout]"
      using next_round(3) e by simp
    moreover have "Logout \<notin> set (wait delay i @ evs1 @ evs0)"
      using l l1 by (simp add: Logout_wait)
    ultimately show ?thesis using st by blast
  qed
qed

lemma for_i_selections:
  assumes "for_i server delay mailboxes expected_token cleanup_flag rounds status s
             = (r, evs, s')"
  shows "prefix (selections evs) (concat (map (\<lambda>i. mailboxes) rounds))"
  using assms
proof (induction rounds arbitrary: status s evs)
  case Nil
  then show ?case by (auto simp: io_return_def selections_def)
next
  case (Cons i rest)
  from Cons.prems show ?case
  proof (cases rule: for_i_cases)
    case (raised e evs1)
    with for_mailbox_selections [OF raised(1)] show ?thesis
      by (simp add: selections_append selections_wait prefix_prefix)
  next
    case (returned st' evs1)
    with for_mailbox_selections [OF returned(1)] show ?thesis
      by (simp add: selections_append selections_wait prefix_prefix)
  next
    case (next_round st' evs1 s1 evs2)
    from for_mailbox_selections [OF next_round(1)] Cons.IH [OF next_round(2)] next_round(3)
    show ?thesis
      by (simp add: selections_append selections_wait)
  qed
qed

section \<open>The retry loop as a whole\<close>

lemma retrieve_returns:
  assumes "imap_retrieve_mail server delay imap_host imap_port imap_user imap_pass imap_spambox
             expected_token cleanup_flag skip s = (Inr st, evs, s')"
  obtains (early) s2 evs1 where
      "for_i server delay (mailboxes_of imap_spambox) expected_token cleanup_flag [0, 1, 2]
         NOT_FOUND s2 = (Inr (Return st), evs1, s')"
      and "evs = [Connect, Login] @ evs1"
  | (exhausted) s2 evs1 s3 where
      "for_i server delay (mailboxes_of imap_spambox) expected_token cleanup_flag [0, 1, 2]
         NOT_FOUND s2 = (Inr (Next st), evs1, s3)"
      and "evs = [Connect, Login] @ evs1 @ [Logout]"
  using assms unfolding imap_retrieve_mail_def
  by (auto simp: io_bind_def io_call_def io_return_def
           simp del: for_i.simps split: prod.splits sum.splits flow.splits)

lemma retrieve_selections:
  assumes "imap_retrieve_mail server delay imap_host imap_port imap_user imap_pass imap_spambox
             expected_token cleanup_flag skip s = (r, evs, s')"
  shows "prefix (selections evs)
           (mailboxes_of imap_spambox @ mailboxes_of imap_spambox @ mailboxes_of imap_spambox)"
  using assms unfolding imap_retrieve_mail_def
  by (auto simp: io_bind_def io_call_def io_return_def selections_Cons selections_Nil
                 selections_append
           simp del: for_i.simps split: prod.splits sum.splits flow.splits
           dest!: for_i_selections)

lemma scans_round_plan:
  "scans (round_plan delay mailboxes i) = map (\<lambda>b. (b, NOT_FOUND)) mailboxes"
  by (simp add: round_plan_def scans_append scans_wait) (simp add: scans_def comp_def)

text \<open>
  When connecting and logging in succeed and every scan returns \<open>NOT_FOUND\<close>, the run
  goes through all three rounds; when the logout succeeds too, it returns \<open>NOT_FOUND\<close>.
  The calls may change the state of the session: \<open>I\<close> is any property of that state which
  the calls keep and under which they succeed.
\<close>

lemma for_mailbox_all_NOT_FOUND:
  assumes "I s"
    and "\<And>m s. m \<in> set mailboxes \<Longrightarrow> I s \<Longrightarrow>
           \<exists>evs s'. imap_search_server server m expected_token cleanup_flag s
             = (Inr NOT_FOUND, evs, s') \<and> I s'"
  shows "\<exists>evs s'. for_mailbox server expected_token cleanup_flag mailboxes NOT_FOUND s
           = (Inr (Next NOT_FOUND), evs, s') \<and> I s'"
  using assms
proof (induction mailboxes arbitrary: s)
  case Nil
  then show ?case by (simp add: io_return_def)
next
  case (Cons m rest)
  from Cons.prems(2) [of m s] Cons.prems(1) obtain evs1 s1 where
    scan: "imap_search_server server m expected_token cleanup_flag s = (Inr NOT_FOUND, evs1, s1)"
    and s1: "I s1"
    by auto
  from Cons.IH [OF s1] Cons.prems(2) obtain evs2 s2 where
    "for_mailbox server expected_token cleanup_flag rest NOT_FOUND s1
       = (Inr (Next NOT_FOUND), evs2, s2)" and "I s2"
    by auto
  with scan show ?case by (simp add: io_bind_def scanned_def)
qed

lemma for_i_all_NOT_FOUND:
  assumes "I s"
    and "\<And>m s. m \<in> set mailboxes \<Longrightarrow> I s \<Longrightarrow>
           \<exists>evs s'. imap_search_server server m expected_token cleanup_flag s
             = (Inr NOT_FOUND, evs, s') \<and> I s'"
  shows "\<exists>evs s'. for_i server delay mailboxes expected_token cleanup_flag rounds NOT_FOUND s
           = (Inr (Next NOT_FOUND), evs, s') \<and> I s'"
  using assms(1)
proof (induction rounds arbitrary: s)
  case Nil
  then show ?case by (simp add: io_return_def)
next
  case (Cons i rest)
  from for_mailbox_all_NOT_FOUND [of I, OF Cons.prems assms(2)] obtain evs1 s1 where
    fm: "for_mailbox server expected_token cleanup_flag mailboxes NOT_FOUND s
       = (Inr (Next NOT_FOUND), evs1, s1)" and s1: "I s1"
    by blast
  from Cons.IH [OF s1] obtain evs2 s2 where
    "for_i server delay mailboxes expected_token cleanup_flag rest NOT_FOUND s1
       = (Inr (Next NOT_FOUND), evs2, s2)" and "I s2"
    by blast
  with fm show ?case by (simp add: Let_def io_bind_def sleep_def io_return_def)
qed

lemma run_returns_NOT_FOUND:
  assumes "I s"
    and "\<And>s. I s \<Longrightarrow> \<exists>s'. IMAP4_SSL server imap_host imap_port skip s = (Inr (), s') \<and> I s'"
    and "\<And>s. I s \<Longrightarrow> \<exists>x s'. login server imap_user imap_pass s = (Inr x, s') \<and> I s'"
    and "\<And>m s. m \<in> set (mailboxes_of imap_spambox) \<Longrightarrow> I s \<Longrightarrow>
           \<exists>evs s'. imap_search_server server m expected_token cleanup_flag s
             = (Inr NOT_FOUND, evs, s') \<and> I s'"
    and "\<And>s. I s \<Longrightarrow> \<exists>x s'. logout server s = (Inr x, s')"
  shows "\<exists>evs s'. imap_retrieve_mail server delay imap_host imap_port imap_user imap_pass
           imap_spambox expected_token cleanup_flag skip s = (Inr NOT_FOUND, evs, s')"
proof -
  from assms(2) [OF assms(1)] obtain s1 where
    c: "IMAP4_SSL server imap_host imap_port skip s = (Inr (), s1)" and s1: "I s1" by blast
  from assms(3) [OF s1] obtain x s2 where
    l: "login server imap_user imap_pass s1 = (Inr x, s2)" and s2: "I s2" by blast
  from for_i_all_NOT_FOUND [of I, OF s2 assms(4)] obtain evs s3 where
    f: "for_i server delay (mailboxes_of imap_spambox) expected_token cleanup_flag [0, 1, 2]
          NOT_FOUND s2 = (Inr (Next NOT_FOUND), evs, s3)" and s3: "I s3"
    by blast
  from assms(5) [OF s3] obtain y s4 where
    o: "logout server s3 = (Inr y, s4)" by blast
  from c l f o show ?thesis
    unfolding imap_retrieve_mail_def
    by (simp add: io_bind_def io_call_def io_return_def del: for_i.simps)
qed

text \<open>The waits and scans of a run that returns \<open>NOT_FOUND\<close>.\<close>

lemma schedule_of_NOT_FOUND_run:
  assumes "0 < delay"
    and "imap_retrieve_mail server delay imap_host imap_port imap_user imap_pass imap_spambox
           expected_token cleanup_flag skip s = (Inr NOT_FOUND, evs, s')"
  shows "schedule evs =
           [Sleep delay] @ map (\<lambda>m. Scanned m NOT_FOUND) (mailboxes_of imap_spambox)
           @ [Sleep (4 * delay)] @ map (\<lambda>m. Scanned m NOT_FOUND) (mailboxes_of imap_spambox)
           @ [Sleep (9 * delay)] @ map (\<lambda>m. Scanned m NOT_FOUND) (mailboxes_of imap_spambox)"
  using assms(2)
proof (cases rule: retrieve_returns)
  case (early s2 evs1)
  from for_i_Return [OF early(1)] show ?thesis by simp
next
  case (exhausted s2 evs1 s3)
  from for_i_Next [OF exhausted(1)] have
    "schedule evs1 = concat (map (round_plan delay (mailboxes_of imap_spambox)) [0, 1, 2])"
    by simp
  moreover have "schedule evs = schedule evs1"
    using exhausted(2) by (simp add: schedule_def schedule_event_def)
  ultimately show ?thesis using assms(1) by (simp add: round_plan_def wait_def)
qed

text \<open>
  No call of a run follows a logout, however the run ends: the calls before the last one
  are never a logout.
\<close>

lemma butlast_no_Logout:
  "Logout \<notin> set xs \<Longrightarrow> Logout \<notin> set (butlast ys) \<Longrightarrow> Logout \<notin> set (butlast (xs @ ys))"
  by (auto simp: butlast_append dest: in_set_butlastD)

lemma for_mailbox_Logout:
  assumes "for_mailbox server expected_token cleanup_flag mailboxes status s = (r, evs, s')"
  shows "Logout \<notin> set (butlast evs)"
  using assms
proof (induction mailboxes arbitrary: status s evs)
  case Nil
  then show ?case by (auto simp: io_return_def)
next
  case (Cons mailbox rest)
  from Cons.prems show ?case
  proof (cases rule: for_mailbox_cases)
    case (scan_raised e)
    from scan_facts(4) [OF scan_raised(1)] show ?thesis by (auto dest: in_set_butlastD)
  next
    case (left st evs1 s1 r2)
    from scan_facts(4) [OF left(1)] left(4) show ?thesis
      by (simp add: butlast_append)
  next
    case (went_on evs1 s1 evs2)
    from Cons.IH [OF went_on(2)] have "Logout \<notin> set (butlast (Scanned mailbox NOT_FOUND # evs2))"
      by simp
    with scan_facts(4) [OF went_on(1)]
    have "Logout \<notin> set (butlast (evs1 @ Scanned mailbox NOT_FOUND # evs2))"
      by (rule butlast_no_Logout)
    then show ?thesis unfolding went_on(3) .
  qed
qed

lemma for_i_Logout:
  assumes "for_i server delay mailboxes expected_token cleanup_flag rounds NOT_FOUND s
             = (r, evs, s')"
  shows "Logout \<notin> set (butlast evs)"
  using assms
proof (induction rounds arbitrary: s evs)
  case Nil
  then show ?case by (auto simp: io_return_def)
next
  case (Cons i rest)
  from Cons.prems show ?case
  proof (cases rule: for_i_cases)
    case (raised e evs1)
    from Logout_wait [of delay i] for_mailbox_Logout [OF raised(1)]
    have "Logout \<notin> set (butlast (wait delay i @ evs1))"
      by (rule butlast_no_Logout)
    then show ?thesis unfolding raised(3) .
  next
    case (returned st evs1)
    from Logout_wait [of delay i] for_mailbox_Logout [OF returned(1)]
    have "Logout \<notin> set (butlast (wait delay i @ evs1))"
      by (rule butlast_no_Logout)
    then show ?thesis unfolding returned(3) .
  next
    case (next_round st evs1 s1 evs2)
    from for_mailbox_Next [OF next_round(1)] have st: "st = NOT_FOUND"
      and l1: "Logout \<notin> set evs1"
      by simp_all
    from Cons.IH [OF next_round(2) [unfolded st]] have "Logout \<notin> set (butlast evs2)" .
    with l1 have "Logout \<notin> set (butlast (evs1 @ evs2))" by (rule butlast_no_Logout)
    with Logout_wait [of delay i]
    have "Logout \<notin> set (butlast (wait delay i @ evs1 @ evs2))"
      by (rule butlast_no_Logout)
    then show ?thesis unfolding next_round(3) .
  qed
qed

lemma once_or_never:
  assumes "evs \<noteq> []" and "x \<notin> set (butlast evs)"
  shows "(last evs = x \<longrightarrow> count_list evs x = 1) \<and> (last evs \<noteq> x \<longrightarrow> x \<notin> set evs)"
  using assms
proof (induction evs rule: rev_induct)
  case Nil
  then show ?case by simp
next
  case (snoc y ys)
  then have "x \<notin> set ys" by simp
  then have "count_list ys x = 0" by (simp add: count_list_0_iff)
  with \<open>x \<notin> set ys\<close> show ?case by simp
qed

lemma for_i_Logout_Next:
  assumes "for_i server delay mailboxes expected_token cleanup_flag rounds NOT_FOUND s
             = (r, evs, s')"
  shows "Logout \<notin> set (butlast evs) \<and> (\<forall>st. r = Inr (Next st) \<longrightarrow> Logout \<notin> set evs)"
proof (intro conjI allI impI)
  show "Logout \<notin> set (butlast evs)" using assms by (rule for_i_Logout)
next
  fix st assume "r = Inr (Next st)"
  with assms have "for_i server delay mailboxes expected_token cleanup_flag rounds NOT_FOUND s
             = (Inr (Next st), evs, s')" by simp
  from for_i_Next [OF this] show "Logout \<notin> set evs" by simp
qed

lemma retrieve_Logout:
  assumes "imap_retrieve_mail server delay imap_host imap_port imap_user imap_pass imap_spambox
             expected_token cleanup_flag skip s = (r, evs, s')"
  shows "Logout \<notin> set (butlast evs) \<and> evs \<noteq> []"
  using assms unfolding imap_retrieve_mail_def
  by (auto simp: io_bind_def io_call_def io_return_def butlast_append
           simp del: for_i.simps split: prod.splits sum.splits flow.splits if_splits
           dest!: for_i_Logout_Next)

section \<open>The parse of the custom header\<close>

lemma split_from_without_separator:
  "\<not> sublist sep s \<Longrightarrow> split_from sep acc s = [rev acc @ s]"
proof (induction sep acc s rule: split_from.induct)
  case (1 sep acc)
  show ?case by simp
next
  case (2 sep acc c cs)
  from "2.prems" have np: "\<not> prefix sep (c # cs)" and ns: "\<not> sublist sep cs"
    by (simp_all add: sublist_Cons_right)
  from np "2.IH"(2) ns show ?case by simp
qed

lemma py_split_without_separator: "\<not> sublist sep s \<Longrightarrow> py_split sep s = [s]"
  by (simp add: py_split_def split_from_without_separator)

lemma py_split_leading_separator:
  assumes "sep \<noteq> []" and "\<not> sublist sep v"
  shows "py_split sep (sep @ v) = [[], v]"
proof -
  from assms(1) obtain c cs where sep: "sep = c # cs" by (cases sep) auto
  have "split_from sep [] (c # cs @ v) = [] # split_from sep [] v"
    using sep by simp
  with assms(2) sep show ?thesis
    by (simp add: py_split_def split_from_without_separator)
qed

lemma for_line_raises_IndexError: "for_line lines token = Inl e \<Longrightarrow> e = IndexError"
  by (induction lines arbitrary: token)
     (auto simp: subscript_def split: if_splits sum.splits)

lemma for_line_no_header:
  "\<forall>l \<in> set lines. \<not> startswith l X_Icinga_Test_Id \<Longrightarrow> for_line lines token = Inr token"
  by (induction lines) auto

lemma for_line_append:
  "for_line (xs @ ys) token =
     (case for_line xs token of Inl e \<Rightarrow> Inl e | Inr t \<Rightarrow> for_line ys t)"
  by (induction xs arbitrary: token) (auto split: sum.splits)

lemma startswith_header: "startswith (X_Icinga_Test_Id_sep @ v) X_Icinga_Test_Id"
  by (simp add: startswith_def X_Icinga_Test_Id_sep_def X_Icinga_Test_Id_def str_def)

lemma separator_nonempty: "X_Icinga_Test_Id_sep \<noteq> []"
  by (simp add: X_Icinga_Test_Id_sep_def str_def)

lemma for_line_one_header:
  assumes "\<forall>l \<in> set (pre @ post). \<not> startswith l X_Icinga_Test_Id"
    and "\<not> sublist X_Icinga_Test_Id_sep v"
  shows "for_line (pre @ (X_Icinga_Test_Id_sep @ v) # post) token = Inr (strip v)"
proof -
  from assms(1) have pre: "for_line pre token = Inr token"
    and post: "for_line post (strip v) = Inr (strip v)"
    by (simp_all add: for_line_no_header)
  have "py_split X_Icinga_Test_Id_sep (X_Icinga_Test_Id_sep @ v) = [[], v]"
    using separator_nonempty assms(2) by (rule py_split_leading_separator)
  then have "for_line ((X_Icinga_Test_Id_sep @ v) # post) token = Inr (strip v)"
    using post startswith_header [of v] by (simp add: subscript_def)
  with pre show ?thesis by (simp add: for_line_append)
qed

lemma visit_parsed:
  assumes "decode num = Inr num_str"
    and "fetch server num_str s = (Inr (typ, data_mail), s1)"
    and "first_literal data_mail = Inr lit"
    and "Email lit = Inr email"
    and "for_line (splitlines (header email)) token = Inr token'"
  shows "visit server mailbox expected_token cleanup_flag num (NOT_FOUND, token) s =
           (if token' = expected_token then
              (Inr (Break (if mailbox = INBOX then FOUND else FOUND_IN_SPAM, token')),
               [Fetch num_str], s1)
            else if cleanup_flag then
              (case store server num s1 of
                 (Inl e, s2) \<Rightarrow> (Inl e, [Fetch num_str, Store num], s2)
               | (Inr x, s2) \<Rightarrow>
                   (Inr (Continue (NOT_FOUND, token')), [Fetch num_str, Store num], s2))
            else (Inr (Continue (NOT_FOUND, token')), [Fetch num_str], s1))"
  using assms
  by (simp add: visit_def io_bind_def io_lift_def io_call_def io_return_def
           split: prod.splits sum.splits)

lemma visit_Continue:
  assumes "visit server mailbox expected_token cleanup_flag num (NOT_FOUND, token) s
             = (Inr (Continue (token_found, token')), evs, s')"
  shows "token_found = NOT_FOUND \<and> token' \<noteq> expected_token"
  using assms
  by (auto simp: visit_def io_bind_def io_lift_def io_call_def io_return_def
           split: prod.splits sum.splits if_splits loop.splits)

lemma visit_Break:
  assumes "visit server mailbox expected_token cleanup_flag num (NOT_FOUND, token) s
             = (Inr (Break (token_found, token')), evs, s')"
  shows "token_found \<noteq> NOT_FOUND"
  using assms
  by (auto simp: visit_def io_bind_def io_lift_def io_call_def io_return_def
           split: prod.splits sum.splits if_splits loop.splits)

lemma for_num_token:
  assumes "for_num server mailbox expected_token cleanup_flag nums (NOT_FOUND, token) s
             = (Inr (NOT_FOUND, token'), evs, s')"
    and "token \<noteq> expected_token"
  shows "token' \<noteq> expected_token"
  using assms
proof (induction nums arbitrary: token s evs)
  case Nil
  then show ?case by (simp add: io_return_def)
next
  case (Cons num nums)
  from Cons.prems(1) have
    "io_bind (visit server mailbox expected_token cleanup_flag num (NOT_FOUND, token)) (\<lambda>c.
       case c of
         Break vars' \<Rightarrow> io_return vars'
       | Continue vars' \<Rightarrow> for_num server mailbox expected_token cleanup_flag nums vars') s
     = (Inr (NOT_FOUND, token'), evs, s')"
    by simp
  then show ?case
  proof (cases rule: io_bind_cases)
    case (raised e)
    then show ?thesis by simp
  next
    case (passed c evs1 s1 evs2)
    show ?thesis
    proof (cases c)
      case (Break vars')
      with passed(1) visit_Break [of server mailbox expected_token cleanup_flag num token s
          "fst vars'" "snd vars'" evs1 s1]
      have "fst vars' \<noteq> NOT_FOUND" by simp
      with passed(2) Break show ?thesis by (auto simp: io_return_def)
    next
      case (Continue vars')
      with passed(1) visit_Continue [of server mailbox expected_token cleanup_flag num token s
          "fst vars'" "snd vars'" evs1 s1]
      have "fst vars' = NOT_FOUND" and "snd vars' \<noteq> expected_token" by simp_all
      with passed(2) Continue Cons.IH [of "snd vars'" s1 evs2] show ?thesis
        by (cases vars') simp
    qed
  qed
qed

section \<open>Runs on the mail store\<close>

text \<open>
  The program evaluated on concrete mail stores. The definitions are unfolded by the
  simplifier; each scan is evaluated once and reused in the runs.
\<close>

lemmas io_defs = io_bind_def io_call_def io_return_def io_lift_def sleep_def scanned_def

lemmas py_defs = decode_def str_def splitlines_def linebreak_def startswith_def
  X_Icinga_Test_Id_def X_Icinga_Test_Id_sep_def py_split_def subscript_def strip_def isspace_def
  Email_def CRLFCRLF_def int_of_first_def split_first_def first_literal_def py_int_def
  bytes_isspace_def digit_def bytes_split_def INBOX_def OK_def cont_def

lemmas ms_defs = mail_server_def search_refused_def ms_select_def ms_search_def ms_fetch_def
  ms_store_def ms_expunge_def ms_close_def current_def change_def flagged_def store_of_def
  mail_def CRLF_def

lemmas ex_defs = probe_token_def probe_mail_def old_mail_def plain_mail_def spaced_mail_def
  bad_mail_def Junk_def

lemmas scan_defs = imap_search_server_def visit_def io_defs py_defs ms_defs ex_defs

lemma mail_server_session:
  "IMAP4_SSL mail_server h p k s = (Inr (), s)"
  "login mail_server u pw s = (Inr (OK, [BytesItem ''Logged in'']), s)"
  "logout mail_server s
     = (Inr (str ''BYE'', [BytesItem ''Logging out'']), s\<lparr>selected := None\<rparr>)"
  by (simp_all add: mail_server_def)

lemma search_refused_session:
  "IMAP4_SSL search_refused h p k s = (Inr (), s)"
  "login search_refused u pw s = (Inr (OK, [BytesItem ''Logged in'']), s)"
  "logout search_refused s
     = (Inr (str ''BYE'', [BytesItem ''Logging out'']), s\<lparr>selected := None\<rparr>)"
  by (simp_all add: search_refused_def mail_server_def)

lemmas run_defs = imap_retrieve_mail_def mailboxes_of_def io_defs mail_server_session
  search_refused_session

lemma scan_old:
  "imap_search_server mail_server INBOX probe_token False (store_of [(INBOX, [(''1'', old_mail, False)])])
     = (Inr NOT_FOUND, [Select INBOX, Search, Fetch (str ''1''), Close],
        store_of [(INBOX, [(''1'', old_mail, False)])])"
  by (simp add: scan_defs)

lemma run_old:
  "imap_retrieve_mail mail_server 10 the_host 993 the_user the_pass None probe_token False False
       (store_of [(INBOX, [(''1'', old_mail, False)])])
     = (Inr NOT_FOUND,
        [Connect, Login,
         Sleep 10, Select INBOX, Search, Fetch (str ''1''), Close, Scanned INBOX NOT_FOUND,
         Sleep 40, Select INBOX, Search, Fetch (str ''1''), Close, Scanned INBOX NOT_FOUND,
         Sleep 90, Select INBOX, Search, Fetch (str ''1''), Close, Scanned INBOX NOT_FOUND,
         Logout],
        store_of [(INBOX, [(''1'', old_mail, False)])])"
  by (simp add: run_defs scan_old) (simp add: store_of_def)

lemma Junk_not_INBOX: "Junk \<noteq> INBOX" "INBOX \<noteq> Junk" "Junk \<noteq> []"
  by (simp_all add: Junk_def INBOX_def str_def)

lemma scan_empty_Junk:
  "imap_search_server mail_server Junk probe_token False (store_of [(Junk, []), (INBOX, [])])
     = (Inr NOT_FOUND, [Select Junk, Search, Close], store_of [(Junk, []), (INBOX, [])])"
  by (simp add: scan_defs)

lemma scan_empty_INBOX:
  "imap_search_server mail_server INBOX probe_token False (store_of [(Junk, []), (INBOX, [])])
     = (Inr NOT_FOUND, [Select INBOX, Search, Close], store_of [(Junk, []), (INBOX, [])])"
  by (simp add: scan_defs)

lemma run_empty:
  "imap_retrieve_mail mail_server 10 the_host 993 the_user the_pass (Some Junk) probe_token False False
       (store_of [(Junk, []), (INBOX, [])])
     = (Inr NOT_FOUND,
        [Connect, Login,
         Sleep 10, Select Junk, Search, Close, Scanned Junk NOT_FOUND,
         Select INBOX, Search, Close, Scanned INBOX NOT_FOUND,
         Sleep 40, Select Junk, Search, Close, Scanned Junk NOT_FOUND,
         Select INBOX, Search, Close, Scanned INBOX NOT_FOUND,
         Sleep 90, Select Junk, Search, Close, Scanned Junk NOT_FOUND,
         Select INBOX, Search, Close, Scanned INBOX NOT_FOUND,
         Logout],
        store_of [(Junk, []), (INBOX, [])])"
  by (simp add: run_defs scan_empty_Junk scan_empty_INBOX Junk_not_INBOX)
     (simp add: store_of_def)

lemma scan_Junk_sent:
  "imap_search_server mail_server Junk probe_token False
       (store_of [(Junk, [(''1'', probe_mail, False)]), (INBOX, [])])
     = (Inr FOUND_IN_SPAM, [Select Junk, Search, Fetch (str ''1''), Close],
        store_of [(Junk, [(''1'', probe_mail, False)]), (INBOX, [])])"
  by (simp add: scan_defs)

lemma run_Junk_sent:
  "imap_retrieve_mail mail_server 10 the_host 993 the_user the_pass (Some Junk) probe_token False False
       (store_of [(Junk, [(''1'', probe_mail, False)]), (INBOX, [])])
     = (Inr FOUND_IN_SPAM,
        [Connect, Login, Sleep 10, Select Junk, Search, Fetch (str ''1''), Close,
         Scanned Junk FOUND_IN_SPAM, Logout],
        store_of [(Junk, [(''1'', probe_mail, False)]), (INBOX, [])])"
  by (simp add: run_defs scan_Junk_sent Junk_not_INBOX) (simp add: store_of_def)

lemma scan_search_refused:
  "imap_search_server search_refused Junk probe_token False
       (store_of [(Junk, []), (INBOX, [(''1'', probe_mail, False)])])
     = (Inr UNDEFINED, [Select Junk, Search],
        (store_of [(Junk, []), (INBOX, [(''1'', probe_mail, False)])])\<lparr>selected := Some Junk\<rparr>)"
  by (simp add: scan_defs)

lemma scan_search_refused_empty:
  "imap_search_server search_refused INBOX probe_token False (store_of [(INBOX, [])])
     = (Inr UNDEFINED, [Select INBOX, Search],
        (store_of [(INBOX, [])])\<lparr>selected := Some INBOX\<rparr>)"
  by (simp add: scan_defs)

lemma scan_probe_cleanup:
  "imap_search_server mail_server INBOX probe_token True
       (store_of [(INBOX, [(''1'', probe_mail, False)])])
     = (Inr FOUND, [Select INBOX, Search, Fetch (str ''1''), Expunge, Close],
        store_of [(INBOX, [(''1'', probe_mail, False)])])"
  by (simp add: scan_defs)

lemma run_probe_cleanup:
  "imap_retrieve_mail mail_server 10 the_host 993 the_user the_pass None probe_token True False
       (store_of [(INBOX, [(''1'', probe_mail, False)])])
     = (Inr FOUND,
        [Connect, Login, Sleep 10, Select INBOX, Search, Fetch (str ''1''), Expunge, Close,
         Scanned INBOX FOUND, Logout],
        store_of [(INBOX, [(''1'', probe_mail, False)])])"
  by (simp add: run_defs scan_probe_cleanup) (simp add: store_of_def)

lemma scan_bad:
  "imap_search_server mail_server INBOX probe_token False (store_of [(INBOX, [(''1'', bad_mail, False)])])
     = (Inl IndexError, [Select INBOX, Search, Fetch (str ''1'')],
        (store_of [(INBOX, [(''1'', bad_mail, False)])])\<lparr>selected := Some INBOX\<rparr>)"
  by (simp add: scan_defs)

lemma run_bad:
  "imap_retrieve_mail mail_server 10 the_host 993 the_user the_pass None probe_token False False
       (store_of [(INBOX, [(''1'', bad_mail, False)])])
     = (Inl IndexError, [Connect, Login, Sleep 10, Select INBOX, Search, Fetch (str ''1'')],
        (store_of [(INBOX, [(''1'', bad_mail, False)])])\<lparr>selected := Some INBOX\<rparr>)"
  by (simp add: run_defs scan_bad)

lemma scan_missing_mailbox:
  "imap_search_server mail_server Junk expected_token cleanup_flag
       (store_of [(INBOX, [(''1'', probe_mail, False)])])
     = (Inl ValueError, [Select Junk], store_of [(INBOX, [(''1'', probe_mail, False)])])"
  by (simp add: imap_search_server_def io_defs py_defs ms_defs Junk_def)

lemma run_missing_mailbox:
  "imap_retrieve_mail mail_server 10 the_host 993 the_user the_pass (Some Junk) expected_token cleanup_flag
       False (store_of [(INBOX, [(''1'', probe_mail, False)])])
     = (Inl ValueError, [Connect, Login, Sleep 10, Select Junk],
        store_of [(INBOX, [(''1'', probe_mail, False)])])"
  by (simp add: run_defs scan_missing_mailbox Junk_not_INBOX)

lemma hex_digits_numeral:
  "hex_digits (numeral k) n = hex_digits (pred_numeral k) (n div 16) @ [hex_digit (n mod 16)]"
proof -
  have "numeral k = Suc (pred_numeral k)" by (rule numeral_eq_Suc)
  then show ?thesis by (simp only: hex_digits.simps)
qed

lemma probe_token_is_a_uuid: "uuid_str 0x5f0c1d9e7a3b4c2d9e8f1a2b3c4d5e6f = probe_token"
  by (simp add: uuid_str_def hex32_def hex_digits_numeral hex_digit_def probe_token_def str_def
        Let_def)

lemma uuid_str_not_empty: "uuid_str n \<noteq> []"
  by (simp add: uuid_str_def Let_def)

lemma search_not_OK:
  assumes "select server mailbox s = (Inr (select_status, d), s1)"
    and "int_of_first d = Inr n"
    and "search server s1 = (Inr (typ, data_mlist), s2)"
    and "typ \<noteq> OK"
  shows "imap_search_server server mailbox expected_token cleanup_flag s
           = (Inr UNDEFINED, [Select mailbox, Search], s2)"
  using assms by (simp add: imap_search_server_def io_defs)

lemma no_cleanup_no_deletion:
  assumes "imap_search_server server mailbox expected_token False s = (r, evs, s')"
  shows "Expunge \<notin> set evs \<and> (\<forall>n. Store n \<notin> set evs)"
proof -
  from assms have "\<exists>rest. evs = Select mailbox # rest
      \<and> list_all (\<lambda>e. e \<noteq> Expunge \<and> (\<forall>n. e \<noteq> Store n)) rest"
    unfolding imap_search_server_def
    by (elim io_bind_call_trace)
       (auto intro!: emits_bind emits_lift emits_return emits_call emits_for_num
             split: prod.splits)
  then show ?thesis by (auto simp: list_all_iff)
qed

lemma decode_digit: "decode ''1'' = Inr (str ''1'')" "decode ''2'' = Inr (str ''2'')"
  by (simp_all add: decode_def str_def)

lemma Email_spaced_mail:
  "Email spaced_mail
     = Inr \<lparr>data = map of_char spaced_mail,
            header = str ''Subject: Mail test'' @ [13, 10]
              @ str ''X-Icinga-Test-Id:   5f0c1d9e-7a3b-4c2d-9e8f-1a2b3c4d5e6f  ''\<rparr>"
  by (simp add: py_defs spaced_mail_def mail_def CRLF_def)

lemma Email_plain_mail:
  "Email plain_mail
     = Inr \<lparr>data = map of_char plain_mail,
            header = str ''Subject: Mail test'' @ [13, 10] @ str ''X-Mailer: other''\<rparr>"
  by (simp add: py_defs plain_mail_def mail_def CRLF_def)

lemma earlier_old_mail:
  "for_num mail_server INBOX probe_token False [''1''] (NOT_FOUND, [])
       ((store_of [(INBOX, [(''1'', old_mail, False), (''2'', plain_mail, False)])])
          \<lparr>selected := Some INBOX\<rparr>)
     = (Inr (NOT_FOUND, str ''11111111-2222-4333-8444-555555555555''), [Fetch (str ''1'')],
        (store_of [(INBOX, [(''1'', old_mail, False), (''2'', plain_mail, False)])])
          \<lparr>selected := Some INBOX\<rparr>)"
  by (simp add: visit_def io_defs py_defs ms_defs ex_defs)

section \<open>The claims\<close>

subsection \<open>C1: cleanup and the matched message\<close>

text \<open>
  C1 says that with cleanup enabled every message visited during a scan, up to and
  including the message whose token matches, is marked deleted and purged before the
  mailbox is closed. The program stops at the message that matches: the \<open>break\<close> of line
  225 leaves the loop before the marking of lines 229 to 231. On a mailbox that holds an
  older probe (message 1) and the probe of this run (message 2), with cleanup enabled,
  message 1 is fetched and marked, message 2 is fetched and not marked, and after
  \<open>expunge\<close> and \<open>close\<close> message 2 is still in the mailbox.
\<close>

theorem matched_message_is_not_marked:
  "imap_search_server mail_server INBOX probe_token True
       (store_of [(INBOX, [(''1'', old_mail, False), (''2'', probe_mail, False)])])
     = (Inr FOUND,
        [Select INBOX, Search, Fetch (str ''1''), Store ''1'', Fetch (str ''2''), Expunge, Close],
        store_of [(INBOX, [(''2'', probe_mail, False)])])"
  by (simp add: scan_defs)

subsection \<open>C2: what ends the retry loop early\<close>

text \<open>
  C2 as stated says that only \<open>FOUND\<close> and \<open>FOUND_IN_SPAM\<close> end the retry loop early and
  that \<open>UNDEFINED\<close> is returned only when it persists through all retries. On a server
  whose SEARCH command answers \<open>NO\<close> the first scan (of the spam mailbox) returns
  \<open>UNDEFINED\<close>, and the run logs out and returns \<open>UNDEFINED\<close> at once: the inbox, which
  holds the probe, is never selected and there is no second round.
\<close>

theorem undefined_scan_ends_the_run:
  "imap_retrieve_mail search_refused 10 the_host 993 the_user the_pass (Some Junk) probe_token
       False False (store_of [(Junk, []), (INBOX, [(''1'', probe_mail, False)])])
     = (Inr UNDEFINED,
        [Connect, Login, Sleep 10, Select Junk, Search, Scanned Junk UNDEFINED, Logout],
        store_of [(Junk, []), (INBOX, [(''1'', probe_mail, False)])])"
  by (simp add: run_defs scan_search_refused Junk_not_INBOX) (simp add: store_of_def)

text \<open>
  C2, amended: the test of line 166 is \<open>status != NOT_FOUND\<close>. Whenever the retry loop
  returns a status, the scans it made are an initial part of the three rounds over the
  mailboxes, every scan but the last returned \<open>NOT_FOUND\<close>, and the last returned the
  status of the run. If that status is not \<open>NOT_FOUND\<close> (so also when it is
  \<open>UNDEFINED\<close>) the run logged out and returned right after that scan; if it is
  \<open>NOT_FOUND\<close>, all three rounds were scanned.
\<close>

theorem returns_at_first_status_other_than_not_found:
  assumes "imap_retrieve_mail server delay imap_host imap_port imap_user imap_pass imap_spambox
             expected_token cleanup_flag skip s = (Inr st, evs, s')"
    and "mailboxes = mailboxes_of imap_spambox"
  shows "if st = NOT_FOUND
         then scans evs = map (\<lambda>b. (b, NOT_FOUND)) (mailboxes @ mailboxes @ mailboxes)
         else (\<exists>pre m evs0. prefix (pre @ [m]) (mailboxes @ mailboxes @ mailboxes)
                 \<and> scans evs = map (\<lambda>b. (b, NOT_FOUND)) pre @ [(m, st)]
                 \<and> evs = evs0 @ [Scanned m st, Logout])"
  using assms(1)
proof (cases rule: retrieve_returns)
  case (early s2 evs1)
  from for_i_Return [OF early(1)] obtain pre m evs0 where
    st: "st \<noteq> NOT_FOUND"
    and p: "prefix (pre @ [m]) (concat (map (\<lambda>i. mailboxes_of imap_spambox) [0, 1, 2 :: int]))"
    and sc: "scans evs1 = map (\<lambda>b. (b, NOT_FOUND)) pre @ [(m, st)]"
    and e: "evs1 = evs0 @ [Scanned m st, Logout]"
    by blast
  have "prefix (pre @ [m]) (mailboxes @ mailboxes @ mailboxes)"
    using p assms(2) by simp
  moreover have "scans evs = map (\<lambda>b. (b, NOT_FOUND)) pre @ [(m, st)]"
    using early(2) sc by (simp add: scans_def)
  moreover have "evs = ([Connect, Login] @ evs0) @ [Scanned m st, Logout]"
    using early(2) e by simp
  ultimately show ?thesis using st by auto
next
  case (exhausted s2 evs1 s3)
  from for_i_Next [OF exhausted(1)] have st: "st = NOT_FOUND"
    and sch: "schedule evs1 = concat (map (round_plan delay (mailboxes_of imap_spambox)) [0, 1, 2])"
    by simp_all
  have "scans evs1 = scans (schedule evs1)" by (simp add: scans_schedule)
  also have "\<dots> = map (\<lambda>b. (b, NOT_FOUND)) (mailboxes @ mailboxes @ mailboxes)"
    unfolding sch using assms(2) by (simp add: scans_append scans_round_plan)
  finally have "scans evs = map (\<lambda>b. (b, NOT_FOUND)) (mailboxes @ mailboxes @ mailboxes)"
    using exhausted(2) by (simp add: scans_def)
  with st show ?thesis by simp
qed

text \<open>
  An instance: the probe is in the spam mailbox, and the run returns \<open>FOUND_IN_SPAM\<close>
  after the first scan.
\<close>

theorem returns_at_first_status_witness:
  "imap_retrieve_mail mail_server 10 the_host 993 the_user the_pass (Some Junk) probe_token
       False False (store_of [(Junk, [(''1'', probe_mail, False)]), (INBOX, [])])
     = (Inr FOUND_IN_SPAM,
        [Connect, Login, Sleep 10, Select Junk, Search, Fetch (str ''1''), Close,
         Scanned Junk FOUND_IN_SPAM, Logout],
        store_of [(Junk, [(''1'', probe_mail, False)]), (INBOX, [])])
   \<and> [Junk, INBOX] = mailboxes_of (Some Junk)
   \<and> (\<exists>pre m evs0.
         prefix (pre @ [m]) ([Junk, INBOX] @ [Junk, INBOX] @ [Junk, INBOX])
         \<and> scans [Connect, Login, Sleep 10, Select Junk, Search, Fetch (str ''1''), Close,
                  Scanned Junk FOUND_IN_SPAM, Logout]
             = map (\<lambda>b. (b, NOT_FOUND)) pre @ [(m, FOUND_IN_SPAM)]
         \<and> [Connect, Login, Sleep 10, Select Junk, Search, Fetch (str ''1''), Close,
             Scanned Junk FOUND_IN_SPAM, Logout]
             = evs0 @ [Scanned m FOUND_IN_SPAM, Logout])"
proof -
  have mb: "[Junk, INBOX] = mailboxes_of (Some Junk)"
    by (simp add: mailboxes_of_def Junk_not_INBOX)
  from returns_at_first_status_other_than_not_found [OF run_Junk_sent mb] run_Junk_sent mb
  show ?thesis by simp
qed

subsection \<open>C3: a failed selection of the mailbox\<close>

text \<open>
  C3 says that a scan whose \<open>select\<close> fails returns \<open>UNDEFINED\<close>, and that the run then
  yields \<open>UNDEFINED\<close> and exit code 3. The program does not look at the status of
  \<open>select\<close> (line 194); only the status of \<open>search\<close> is tested (line 201). With a spam
  mailbox that does not exist on the server, \<open>select\<close> answers \<open>NO\<close> with the server's
  text, \<open>int\<close> of that text raises ValueError (line 195), and the exception leaves
  \<open>imap_search_server\<close>, \<open>imap_retrieve_mail\<close> (without a logout) and \<open>main\<close>: the
  process ends with exit code 1.
\<close>

theorem failed_select_raises:
  "imap_search_server mail_server Junk probe_token False
       (store_of [(INBOX, [(''1'', probe_mail, False)])])
     = (Inl ValueError, [Select Junk], store_of [(INBOX, [(''1'', probe_mail, False)])])
   \<and> main_retrieve mail_server False 10 the_host 993 the_user the_pass (Some Junk)
         0x5f0c1d9e7a3b4c2d9e8f1a2b3c4d5e6f False False
         (store_of [(INBOX, [(''1'', probe_mail, False)])])
       = (Inl ValueError, [Connect, Login, Sleep 10, Select Junk],
          store_of [(INBOX, [(''1'', probe_mail, False)])])
   \<and> exit_code
         (fst (main_retrieve mail_server False 10 the_host 993 the_user the_pass (Some Junk)
            0x5f0c1d9e7a3b4c2d9e8f1a2b3c4d5e6f False False
            (store_of [(INBOX, [(''1'', probe_mail, False)])]))) = 1"
  by (simp add: scan_missing_mailbox main_retrieve_def run_missing_mailbox io_bind_def
        exit_code_def)

subsection \<open>C4: three rounds, waits of d, 4d and 9d\<close>

text \<open>
  C4 as stated says that a run with a base delay \<open>d > 0\<close> in which no match is found makes
  exactly three rounds. A scan that finds no match may also return \<open>UNDEFINED\<close>, and the
  run ends with that scan (line 166). Here the base delay is 10 seconds, the inbox is empty
  and the server answers NO to the search: no match is found, and the run makes one wait
  and one scan.
\<close>

theorem no_match_run_with_one_round:
  "(0 :: int) < 10
   \<and> imap_retrieve_mail search_refused 10 the_host 993 the_user the_pass None probe_token
         False False (store_of [(INBOX, [])])
       = (Inr UNDEFINED,
          [Connect, Login, Sleep 10, Select INBOX, Search, Scanned INBOX UNDEFINED, Logout],
          store_of [(INBOX, [])])
   \<and> schedule
         [Connect, Login, Sleep 10, Select INBOX, Search, Scanned INBOX UNDEFINED, Logout]
       = [Sleep 10, Scanned INBOX UNDEFINED]"
  by (simp add: run_defs scan_search_refused_empty schedule_def schedule_event_def)
     (simp add: store_of_def)

text \<open>
  C4, amended: for a base delay \<open>d > 0\<close>, when connecting, logging in and the logout succeed
  and every scan of a mailbox returns \<open>NOT_FOUND\<close>, the run returns \<open>NOT_FOUND\<close> after
  exactly three rounds, each scanning every mailbox once, and it waits \<open>d\<close>, \<open>4d\<close> and \<open>9d\<close>
  seconds before the scans of rounds 1, 2 and 3. The calls may change the state of the
  session; \<open>I\<close> is a property of that state which holds at the start and which connecting,
  logging in and the scans keep.
\<close>

theorem three_rounds_with_growing_waits:
  assumes "0 < delay"
    and "I s"
    and "\<And>s. I s \<Longrightarrow> \<exists>s'. IMAP4_SSL server imap_host imap_port skip s = (Inr (), s') \<and> I s'"
    and "\<And>s. I s \<Longrightarrow> \<exists>x s'. login server imap_user imap_pass s = (Inr x, s') \<and> I s'"
    and "\<And>m s. m \<in> set (mailboxes_of imap_spambox) \<Longrightarrow> I s \<Longrightarrow>
           \<exists>evs s'. imap_search_server server m expected_token cleanup_flag s
             = (Inr NOT_FOUND, evs, s') \<and> I s'"
    and "\<And>s. I s \<Longrightarrow> \<exists>x s'. logout server s = (Inr x, s')"
  shows "\<exists>evs s'.
           imap_retrieve_mail server delay imap_host imap_port imap_user imap_pass imap_spambox
             expected_token cleanup_flag skip s = (Inr NOT_FOUND, evs, s')
           \<and> schedule evs =
               [Sleep delay] @ map (\<lambda>m. Scanned m NOT_FOUND) (mailboxes_of imap_spambox)
               @ [Sleep (4 * delay)] @ map (\<lambda>m. Scanned m NOT_FOUND) (mailboxes_of imap_spambox)
               @ [Sleep (9 * delay)] @ map (\<lambda>m. Scanned m NOT_FOUND) (mailboxes_of imap_spambox)"
proof -
  from run_returns_NOT_FOUND [of I, OF assms(2-6)] obtain evs s' where
    run: "imap_retrieve_mail server delay imap_host imap_port imap_user imap_pass imap_spambox
            expected_token cleanup_flag skip s = (Inr NOT_FOUND, evs, s')"
    by blast
  from schedule_of_NOT_FOUND_run [OF assms(1) run] run show ?thesis by blast
qed

text \<open>
  An instance with a base delay of 10 seconds and an inbox that holds an older probe; the
  calls of this mail store leave its state as it is.
\<close>

theorem three_rounds_witness:
  "(0 :: int) < 10
   \<and> fst (imap_retrieve_mail mail_server 10 the_host 993 the_user the_pass None probe_token
         False False (store_of [(INBOX, [(''1'', old_mail, False)])])) = Inr NOT_FOUND
   \<and> schedule
         (fst (snd (imap_retrieve_mail mail_server 10 the_host 993 the_user the_pass None
            probe_token False False (store_of [(INBOX, [(''1'', old_mail, False)])]))))
       = [Sleep 10, Scanned INBOX NOT_FOUND, Sleep 40, Scanned INBOX NOT_FOUND,
          Sleep 90, Scanned INBOX NOT_FOUND]"
proof -
  let ?s = "store_of [(INBOX, [(''1'', old_mail, False)])]"
  let ?I = "\<lambda>s. s = ?s"
  have d: "(0 :: int) < 10" by simp
  have start: "?I ?s" by simp
  have connect: "\<And>s. ?I s \<Longrightarrow>
      \<exists>s'. IMAP4_SSL mail_server the_host 993 False s = (Inr (), s') \<and> ?I s'"
    by (simp add: mail_server_session)
  have login: "\<And>s. ?I s \<Longrightarrow>
      \<exists>x s'. login mail_server the_user the_pass s = (Inr x, s') \<and> ?I s'"
    by (simp add: mail_server_session)
  have scan: "\<And>m s. m \<in> set (mailboxes_of None) \<Longrightarrow> ?I s \<Longrightarrow>
      \<exists>evs s'. imap_search_server mail_server m probe_token False s
        = (Inr NOT_FOUND, evs, s') \<and> ?I s'"
    by (simp add: mailboxes_of_def scan_old)
  have logout: "\<And>s. ?I s \<Longrightarrow> \<exists>x s'. logout mail_server s = (Inr x, s')"
    by (simp add: mail_server_session)
  from three_rounds_with_growing_waits [where I = ?I, OF d start connect login scan logout]
  obtain evs s' where
    run: "imap_retrieve_mail mail_server 10 the_host 993 the_user the_pass None probe_token
            False False ?s = (Inr NOT_FOUND, evs, s')"
    and sch: "schedule evs =
        [Sleep 10] @ map (\<lambda>m. Scanned m NOT_FOUND) (mailboxes_of None)
        @ [Sleep (4 * 10)] @ map (\<lambda>m. Scanned m NOT_FOUND) (mailboxes_of None)
        @ [Sleep (9 * 10)] @ map (\<lambda>m. Scanned m NOT_FOUND) (mailboxes_of None)"
    by blast
  from sch have "schedule evs = [Sleep 10, Scanned INBOX NOT_FOUND, Sleep 40,
      Scanned INBOX NOT_FOUND, Sleep 90, Scanned INBOX NOT_FOUND]"
    by (simp add: mailboxes_of_def)
  with run d show ?thesis by simp
qed

subsection \<open>C5: the spam mailbox comes before the inbox\<close>

text \<open>
  C5: when a spam mailbox is configured (a non-empty name), the list of mailboxes is the
  spam mailbox followed by \<open>INBOX\<close>, and the mailboxes selected by a run, however it
  ends, are an initial part of three rounds of spam mailbox, then \<open>INBOX\<close>.
\<close>

theorem spam_mailbox_before_inbox:
  assumes "imap_retrieve_mail server delay imap_host imap_port imap_user imap_pass (Some spam)
             expected_token cleanup_flag skip s = (r, evs, s')"
    and "spam \<noteq> []"
  shows "mailboxes_of (Some spam) = [spam, INBOX]
         \<and> prefix (selections evs) ([spam, INBOX] @ [spam, INBOX] @ [spam, INBOX])"
proof -
  have mb: "mailboxes_of (Some spam) = [spam, INBOX]"
    using assms(2) by (simp add: mailboxes_of_def)
  with retrieve_selections [OF assms(1)] show ?thesis by simp
qed

text \<open>An instance with two empty mailboxes: all three rounds select both, in that order.\<close>

theorem spam_before_inbox_witness:
  "Junk \<noteq> []
   \<and> selections (fst (snd (imap_retrieve_mail mail_server 10 the_host 993 the_user the_pass
         (Some Junk) probe_token False False (store_of [(Junk, []), (INBOX, [])]))))
       = [Junk, INBOX, Junk, INBOX, Junk, INBOX]
   \<and> prefix [Junk, INBOX, Junk, INBOX, Junk, INBOX]
         ([Junk, INBOX] @ [Junk, INBOX] @ [Junk, INBOX])"
proof -
  have sel: "selections (fst (snd (imap_retrieve_mail mail_server 10 the_host 993 the_user
      the_pass (Some Junk) probe_token False False (store_of [(Junk, []), (INBOX, [])]))))
      = [Junk, INBOX, Junk, INBOX, Junk, INBOX]"
    by (simp add: run_empty selections_def)
  from spam_mailbox_before_inbox [OF run_empty Junk_not_INBOX(3)] sel Junk_not_INBOX(3)
  show ?thesis by (simp add: run_empty)
qed

subsection \<open>C6: the comparison of the token\<close>

text \<open>
  C6 as stated says that, for every message scanned, the expected token is compared with
  the value of the custom header, trimmed. The program does not take the value of the
  header: it takes the second piece of the line split at \<open>X-Icinga-Test-Id: \<close> (line 216).
  The custom header of \<open>twice_mail\<close> has a value that goes on after the token; trimmed, it
  differs from the expected token, and the scan reports \<open>FOUND\<close>.
\<close>

theorem separator_in_value_gives_FOUND:
  "Email twice_mail
     = Inr \<lparr>data = map of_char twice_mail,
            header = str ''Subject: Mail test'' @ [13, 10]
              @ str ''X-Icinga-Test-Id: 5f0c1d9e-7a3b-4c2d-9e8f-1a2b3c4d5e6f X-Icinga-Test-Id: other''\<rparr>
   \<and> spec_field_name
         (str ''X-Icinga-Test-Id: 5f0c1d9e-7a3b-4c2d-9e8f-1a2b3c4d5e6f X-Icinga-Test-Id: other'')
       = X_Icinga_Test_Id
   \<and> strip (spec_field_value
         (str ''X-Icinga-Test-Id: 5f0c1d9e-7a3b-4c2d-9e8f-1a2b3c4d5e6f X-Icinga-Test-Id: other''))
       = str ''5f0c1d9e-7a3b-4c2d-9e8f-1a2b3c4d5e6f X-Icinga-Test-Id: other''
   \<and> str ''5f0c1d9e-7a3b-4c2d-9e8f-1a2b3c4d5e6f X-Icinga-Test-Id: other'' \<noteq> probe_token
   \<and> imap_search_server mail_server INBOX probe_token False
         (store_of [(INBOX, [(''1'', twice_mail, False)])])
       = (Inr FOUND, [Select INBOX, Search, Fetch (str ''1''), Close],
          store_of [(INBOX, [(''1'', twice_mail, False)])])"
  by (simp add: scan_defs twice_mail_def spec_field_name_def spec_field_value_def)

text \<open>
  C6, amended: for a message that is fetched and parsed without error and whose header
  block has exactly one line that starts with \<open>X-Icinga-Test-Id\<close>, this line being
  \<open>X-Icinga-Test-Id: v\<close> with a value \<open>v\<close> that does not contain \<open>X-Icinga-Test-Id: \<close>
  again, the token compared is \<open>v\<close> with the surrounding whitespace removed, and the
  comparison is equality. On a match the loop over the messages ends at once with \<open>FOUND\<close>
  if the mailbox is \<open>INBOX\<close> and \<open>FOUND_IN_SPAM\<close> otherwise: the only call made is the
  fetch of this message, whatever messages follow. Without a match the state stays
  \<open>NOT_FOUND\<close> and the loop goes on (after marking the message, when cleanup is enabled;
  an error of that call is raised).
\<close>

theorem token_compared_by_equality:
  assumes "decode num = Inr num_str"
    and "fetch server num_str s = (Inr (typ, data_mail), s1)"
    and "first_literal data_mail = Inr lit"
    and "Email lit = Inr email"
    and "splitlines (header email) = pre @ (X_Icinga_Test_Id_sep @ v) # post"
    and "\<forall>l \<in> set (pre @ post). \<not> startswith l X_Icinga_Test_Id"
    and "\<not> sublist X_Icinga_Test_Id_sep v"
  shows "if strip v = expected_token then
           for_num server mailbox expected_token cleanup_flag (num # nums) (NOT_FOUND, token) s
             = (Inr (if mailbox = INBOX then FOUND else FOUND_IN_SPAM, strip v),
                [Fetch num_str], s1)
         else
           visit server mailbox expected_token cleanup_flag num (NOT_FOUND, token) s
             = (if cleanup_flag then
                  (case store server num s1 of
                     (Inl e, s2) \<Rightarrow> (Inl e, [Fetch num_str, Store num], s2)
                   | (Inr x, s2) \<Rightarrow>
                       (Inr (Continue (NOT_FOUND, strip v)), [Fetch num_str, Store num], s2))
                else (Inr (Continue (NOT_FOUND, strip v)), [Fetch num_str], s1))"
proof -
  have "for_line (splitlines (header email)) token = Inr (strip v)"
    unfolding assms(5) using assms(6,7) by (rule for_line_one_header)
  from visit_parsed [OF assms(1-4) this]
  show ?thesis by (simp add: io_bind_def io_return_def)
qed

text \<open>
  An instance: the header value has blanks on both sides of the token, the mailbox is
  \<open>INBOX\<close>, and a second message is never fetched.
\<close>

theorem token_compared_witness:
  "for_num mail_server INBOX probe_token False [''1'', ''2''] (NOT_FOUND, [])
       ((store_of [(INBOX, [(''1'', spaced_mail, False), (''2'', old_mail, False)])])
          \<lparr>selected := Some INBOX\<rparr>)
     = (Inr (FOUND, probe_token), [Fetch (str ''1'')],
        (store_of [(INBOX, [(''1'', spaced_mail, False), (''2'', old_mail, False)])])
          \<lparr>selected := Some INBOX\<rparr>)
   \<and> strip (str ''  5f0c1d9e-7a3b-4c2d-9e8f-1a2b3c4d5e6f  '') = probe_token"
proof -
  let ?s = "(store_of [(INBOX, [(''1'', spaced_mail, False), (''2'', old_mail, False)])])
              \<lparr>selected := Some INBOX\<rparr>"
  let ?v = "str ''  5f0c1d9e-7a3b-4c2d-9e8f-1a2b3c4d5e6f  ''"
  let ?email = "\<lparr>data = map of_char spaced_mail,
                  header = str ''Subject: Mail test'' @ [13, 10]
                    @ str ''X-Icinga-Test-Id:   5f0c1d9e-7a3b-4c2d-9e8f-1a2b3c4d5e6f  ''\<rparr>"
  have fetched: "fetch mail_server (str ''1'') ?s
      = (Inr (OK, [TupleItem ''1 (RFC822'' spaced_mail, BytesItem '')'']), ?s)"
    by (simp add: ms_defs decode_def str_def)
  have lit: "first_literal [TupleItem ''1 (RFC822'' spaced_mail, BytesItem '')'']
      = Inr spaced_mail"
    by (simp add: first_literal_def subscript_def)
  have lines: "splitlines (header ?email)
      = [str ''Subject: Mail test''] @ (X_Icinga_Test_Id_sep @ ?v) # []"
    by (simp add: py_defs)
  have others: "\<forall>l \<in> set ([str ''Subject: Mail test''] @ []). \<not> startswith l X_Icinga_Test_Id"
    by (simp add: py_defs)
  have once: "\<not> sublist X_Icinga_Test_Id_sep ?v"
    by (simp add: py_defs sublist_Cons_right)
  have trimmed: "strip ?v = probe_token"
    by (simp add: py_defs probe_token_def)
  from token_compared_by_equality [OF decode_digit(1) fetched lit Email_spaced_mail lines
      others once, of probe_token INBOX False "[''2'']" "[]"] trimmed
  show ?thesis by simp
qed

subsection \<open>C7: a message without the custom header\<close>

text \<open>
  C7 as stated speaks of every message that lacks the custom header. The program tests
  whether a header line starts with the characters \<open>X-Icinga-Test-Id\<close> (line 215), which
  is also true of a header with a longer name. The headers of \<open>copy_mail\<close> are \<open>Subject\<close>
  and \<open>X-Icinga-Test-Id-Copy\<close>: the message has no custom header, the expected token is
  not empty, and the scan of the mailbox that holds this message alone reports \<open>FOUND\<close>.
\<close>

theorem other_header_gives_FOUND:
  "Email copy_mail
     = Inr \<lparr>data = map of_char copy_mail,
            header = str ''Subject: Mail test'' @ [13, 10]
              @ str ''X-Icinga-Test-Id-Copy: X-Icinga-Test-Id: 5f0c1d9e-7a3b-4c2d-9e8f-1a2b3c4d5e6f''\<rparr>
   \<and> map spec_field_name
         (splitlines (str ''Subject: Mail test'' @ [13, 10]
            @ str ''X-Icinga-Test-Id-Copy: X-Icinga-Test-Id: 5f0c1d9e-7a3b-4c2d-9e8f-1a2b3c4d5e6f''))
       = [str ''Subject'', str ''X-Icinga-Test-Id-Copy'']
   \<and> str ''Subject'' \<noteq> X_Icinga_Test_Id
   \<and> str ''X-Icinga-Test-Id-Copy'' \<noteq> X_Icinga_Test_Id
   \<and> probe_token \<noteq> []
   \<and> imap_search_server mail_server INBOX probe_token False
         (store_of [(INBOX, [(''1'', copy_mail, False)])])
       = (Inr FOUND, [Select INBOX, Search, Fetch (str ''1''), Close],
          store_of [(INBOX, [(''1'', copy_mail, False)])])"
  by (simp add: scan_defs copy_mail_def spec_field_name_def)

text \<open>
  C7, amended: in a scan for a non-empty token (the token of every run is the text of a
  UUID, see \<open>uuid_str_not_empty\<close>), after any messages \<open>earlier\<close> that left the state at
  \<open>NOT_FOUND\<close>, visiting a message that is fetched and parsed without error and none of
  whose header lines starts with the characters \<open>X-Icinga-Test-Id\<close> leaves the state at
  \<open>NOT_FOUND\<close> and the running token unchanged, and the loop goes on (after marking the
  message, when cleanup is enabled; an error of that call is raised).
\<close>

theorem message_without_header_keeps_token_found:
  assumes "expected_token \<noteq> []"
    and "for_num server mailbox expected_token cleanup_flag earlier (NOT_FOUND, []) s0
           = (Inr (NOT_FOUND, token), evs0, s)"
    and "decode num = Inr num_str"
    and "fetch server num_str s = (Inr (typ, data_mail), s1)"
    and "first_literal data_mail = Inr lit"
    and "Email lit = Inr email"
    and "\<forall>l \<in> set (splitlines (header email)). \<not> startswith l X_Icinga_Test_Id"
  shows "visit server mailbox expected_token cleanup_flag num (NOT_FOUND, token) s
           = (if cleanup_flag then
                (case store server num s1 of
                   (Inl e, s2) \<Rightarrow> (Inl e, [Fetch num_str, Store num], s2)
                 | (Inr x, s2) \<Rightarrow>
                     (Inr (Continue (NOT_FOUND, token)), [Fetch num_str, Store num], s2))
              else (Inr (Continue (NOT_FOUND, token)), [Fetch num_str], s1))"
proof -
  from assms(1) have "[] \<noteq> expected_token" by simp
  with assms(2) have ne: "token \<noteq> expected_token" by (rule for_num_token)
  have "for_line (splitlines (header email)) token = Inr token"
    using assms(7) by (rule for_line_no_header)
  from visit_parsed [OF assms(3-6) this] ne show ?thesis by simp
qed

text \<open>
  An instance: the first message is an older probe, whose token stays in \<open>token\<close> while
  the second message, without the header, is visited.
\<close>

theorem message_without_header_witness:
  "probe_token \<noteq> []
   \<and> visit mail_server INBOX probe_token False ''2''
         (NOT_FOUND, str ''11111111-2222-4333-8444-555555555555'')
         ((store_of [(INBOX, [(''1'', old_mail, False), (''2'', plain_mail, False)])])
            \<lparr>selected := Some INBOX\<rparr>)
       = (Inr (Continue (NOT_FOUND, str ''11111111-2222-4333-8444-555555555555'')),
          [Fetch (str ''2'')],
          (store_of [(INBOX, [(''1'', old_mail, False), (''2'', plain_mail, False)])])
            \<lparr>selected := Some INBOX\<rparr>)"
proof -
  let ?s = "(store_of [(INBOX, [(''1'', old_mail, False), (''2'', plain_mail, False)])])
              \<lparr>selected := Some INBOX\<rparr>"
  let ?email = "\<lparr>data = map of_char plain_mail,
                  header = str ''Subject: Mail test'' @ [13, 10] @ str ''X-Mailer: other''\<rparr>"
  have ne: "probe_token \<noteq> []"
    by (simp add: probe_token_def str_def)
  have fetched: "fetch mail_server (str ''2'') ?s
      = (Inr (OK, [TupleItem ''2 (RFC822'' plain_mail, BytesItem '')'']), ?s)"
    by (simp add: ms_defs decode_def str_def)
  have lit: "first_literal [TupleItem ''2 (RFC822'' plain_mail, BytesItem '')'']
      = Inr plain_mail"
    by (simp add: first_literal_def subscript_def)
  have none: "\<forall>l \<in> set (splitlines (header ?email)). \<not> startswith l X_Icinga_Test_Id"
    by (simp add: py_defs)
  from message_without_header_keeps_token_found [OF ne earlier_old_mail decode_digit(2)
      fetched lit Email_plain_mail none] ne
  show ?thesis by simp
qed

subsection \<open>C8: the final status\<close>

text \<open>
  C8: \<open>FOUND\<close> prints \<open>OK\<close> and exits with 0; \<open>FOUND_IN_SPAM\<close> prints its warning only
  when the debug flag is set and exits with 1; \<open>NOT_FOUND\<close> prints \<open>ERROR - Message not
  found\<close> and exits with 2; \<open>UNDEFINED\<close> prints \<open>UNDEFINED - Undefined state\<close> and exits
  with 3. The printed lines and the code depend on the status and the debug flag only.
\<close>

theorem final_status_report:
  "main_status debug_flag FOUND = ([str ''OK''], 0)
   \<and> main_status debug_flag FOUND_IN_SPAM
       = (if debug_flag then [str ''WARNING - Message found in Spam folder''] else [], 1)
   \<and> main_status debug_flag NOT_FOUND = ([str ''ERROR - Message not found''], 2)
   \<and> main_status debug_flag UNDEFINED = ([str ''UNDEFINED - Undefined state''], 3)
   \<and> exit_code (Inr (main_status debug_flag FOUND)) = 0
   \<and> exit_code (Inr (main_status debug_flag FOUND_IN_SPAM)) = 1
   \<and> exit_code (Inr (main_status debug_flag NOT_FOUND)) = 2
   \<and> exit_code (Inr (main_status debug_flag UNDEFINED)) = 3"
  by (simp add: main_status_def debug_def exit_code_def)

subsection \<open>C9: logout\<close>

text \<open>
  C9 as stated says that logout occurs exactly once on every exit path, including when a
  scan fails. The program has no exception handler: when a scan raises, the exception
  leaves \<open>imap_retrieve_mail\<close> and no logout is made. Here the inbox holds a message whose
  custom header has no blank after the colon, and the parse raises IndexError.
\<close>

theorem exception_leaves_without_logout:
  "fst (imap_retrieve_mail mail_server 10 the_host 993 the_user the_pass None probe_token False
         False (store_of [(INBOX, [(''1'', bad_mail, False)])])) = Inl IndexError
   \<and> count_list
         (fst (snd (imap_retrieve_mail mail_server 10 the_host 993 the_user the_pass None
            probe_token False False (store_of [(INBOX, [(''1'', bad_mail, False)])]))))
         Logout = 0"
  by (simp add: run_bad)

text \<open>
  C9, amended: whenever \<open>imap_retrieve_mail\<close> returns a status to its caller (after a
  scan whose status is not \<open>NOT_FOUND\<close>, \<open>UNDEFINED\<close> included, or after the third
  round), it has called logout exactly once, as its last call. When it ends by an exception
  instead, it has called logout at most once, and no call follows a logout: either the last
  call made is the logout, the only one, or no logout is made at all. The second is the case
  of every run whose last call before the exception is another one than logout, such as the
  call of a scan that raises.
\<close>

theorem logout_at_most_once_and_last:
  assumes "imap_retrieve_mail server delay imap_host imap_port imap_user imap_pass imap_spambox
             expected_token cleanup_flag skip s = (r, evs, s')"
  shows "case r of
           Inr st \<Rightarrow> count_list evs Logout = 1 \<and> last evs = Logout
         | Inl e \<Rightarrow>
             if last evs = Logout then count_list evs Logout = 1 else Logout \<notin> set evs"
proof -
  from retrieve_Logout [OF assms] have before: "Logout \<notin> set (butlast evs)"
    and nonempty: "evs \<noteq> []"
    by simp_all
  from once_or_never [OF nonempty before]
  have once: "last evs = Logout \<Longrightarrow> count_list evs Logout = 1"
    and never: "last evs \<noteq> Logout \<Longrightarrow> Logout \<notin> set evs"
    by simp_all
  show ?thesis
  proof (cases r)
    case (Inl e)
    with once never show ?thesis by simp
  next
    case (Inr st)
    from assms [unfolded Inr] have "last evs = Logout"
    proof (cases rule: retrieve_returns)
      case (early s2 evs1)
      from for_i_Return [OF early(1)] obtain m evs0 where
        "evs1 = evs0 @ [Scanned m st, Logout]" by blast
      with early(2) show ?thesis by simp
    next
      case (exhausted s2 evs1 s3)
      then show ?thesis by simp
    qed
    with once Inr show ?thesis by simp
  qed
qed

text \<open>
  Two instances: the probe is found in the inbox in the first round, and the run logs out
  once before it returns; the spam mailbox does not exist, the scan raises ValueError after
  selecting it, and the run ends without a logout.
\<close>

theorem logout_once_witness:
  "imap_retrieve_mail mail_server 10 the_host 993 the_user the_pass None probe_token True False
       (store_of [(INBOX, [(''1'', probe_mail, False)])])
     = (Inr FOUND,
        [Connect, Login, Sleep 10, Select INBOX, Search, Fetch (str ''1''), Expunge, Close,
         Scanned INBOX FOUND, Logout],
        store_of [(INBOX, [(''1'', probe_mail, False)])])
   \<and> count_list
         [Connect, Login, Sleep 10, Select INBOX, Search, Fetch (str ''1''), Expunge, Close,
          Scanned INBOX FOUND, Logout] Logout = 1
   \<and> last
         [Connect, Login, Sleep 10, Select INBOX, Search, Fetch (str ''1''), Expunge, Close,
          Scanned INBOX FOUND, Logout] = Logout
   \<and> imap_retrieve_mail mail_server 10 the_host 993 the_user the_pass (Some Junk) probe_token
         False False (store_of [(INBOX, [(''1'', probe_mail, False)])])
       = (Inl ValueError, [Connect, Login, Sleep 10, Select Junk],
          store_of [(INBOX, [(''1'', probe_mail, False)])])
   \<and> last [Connect, Login, Sleep 10, Select Junk] \<noteq> Logout
   \<and> Logout \<notin> set [Connect, Login, Sleep 10, Select Junk]"
  using logout_at_most_once_and_last [OF run_probe_cleanup]
    logout_at_most_once_and_last [OF run_missing_mailbox [of probe_token False]]
    run_probe_cleanup run_missing_mailbox [of probe_token False]
  by simp

subsection \<open>C10: a custom header line without the separator\<close>

text \<open>
  C10: when a line of the header block starts with \<open>X-Icinga-Test-Id\<close> and does not
  contain \<open>X-Icinga-Test-Id: \<close>, the split of that line has one piece, and the loop over
  the lines raises IndexError whatever the other lines and the running token are.
\<close>

theorem header_line_without_separator_raises:
  assumes "line \<in> set lines"
    and "startswith line X_Icinga_Test_Id"
    and "\<not> sublist X_Icinga_Test_Id_sep line"
  shows "py_split X_Icinga_Test_Id_sep line = [line] \<and> for_line lines token = Inl IndexError"
proof -
  have one: "py_split X_Icinga_Test_Id_sep line = [line]"
    using assms(3) by (rule py_split_without_separator)
  have "for_line lines token = Inl IndexError" using assms(1)
  proof (induction lines arbitrary: token)
    case Nil
    then show ?case by simp
  next
    case (Cons l ls)
    show ?case
    proof (cases "l = line")
      case True
      with assms(2) one show ?thesis by (simp add: subscript_def)
    next
      case False
      with Cons.prems have "line \<in> set ls" by simp
      from Cons.IH [OF this] show ?thesis
        by (simp add: subscript_def)
    qed
  qed
  with one show ?thesis by simp
qed

text \<open>
  An instance: \<open>X-Icinga-Test-Id:\<close> followed by the token without a blank. A scan of a
  mailbox that holds such a message raises IndexError after the fetch.
\<close>

theorem header_line_without_separator_witness:
  "py_split X_Icinga_Test_Id_sep (str ''X-Icinga-Test-Id:5f0c1d9e-7a3b-4c2d-9e8f-1a2b3c4d5e6f'')
     = [str ''X-Icinga-Test-Id:5f0c1d9e-7a3b-4c2d-9e8f-1a2b3c4d5e6f'']
   \<and> for_line
         [str ''Subject: Mail test'',
          str ''X-Icinga-Test-Id:5f0c1d9e-7a3b-4c2d-9e8f-1a2b3c4d5e6f''] []
       = Inl IndexError
   \<and> imap_search_server mail_server INBOX probe_token False
         (store_of [(INBOX, [(''1'', bad_mail, False)])])
       = (Inl IndexError, [Select INBOX, Search, Fetch (str ''1'')],
          (store_of [(INBOX, [(''1'', bad_mail, False)])])\<lparr>selected := Some INBOX\<rparr>)"
proof -
  let ?line = "str ''X-Icinga-Test-Id:5f0c1d9e-7a3b-4c2d-9e8f-1a2b3c4d5e6f''"
  have member: "?line \<in> set [str ''Subject: Mail test'', ?line]" by simp
  have starts: "startswith ?line X_Icinga_Test_Id"
    by (simp add: py_defs)
  have no_sep: "\<not> sublist X_Icinga_Test_Id_sep ?line"
    by (simp add: py_defs sublist_Cons_right)
  from header_line_without_separator_raises [OF member starts no_sep, of "[]"] scan_bad
  show ?thesis by simp
qed

end
